(* ===== verification/Prelude.thy ===== *)
theory Prelude
  imports Main "HOL-Library.Word"
begin

text \<open>
  Shared vocabulary of the tunnel development.  Go's \<open>int\<close> on a 64-bit platform and
  \<open>uint64\<close> are \<open>64 word\<close> (arithmetic wraps as in Go); a Go \<open>byte\<close> is \<open>8 word\<close>; a
  Go \<open>string\<close> is a HOL \<open>string\<close>, whose \<open>char\<close>s are exactly bytes, read as a
  byte by \<open>go_byte\<close>.  The decimal helpers (\<open>is_digit\<close>, \<open>digit_val\<close>,
  \<open>horner\<close>) are the mathematical reading of a digit string that the parsers and
  printers of \<open>strconv\<close> and \<open>internal/itoa\<close> are proved against.  The
  collection \<open>model_simps\<close> gathers the evaluation equations that the component
  theories add for their own operations.
\<close>

named_theorems model_simps "evaluation equations of the tunnel model"

type_synonym byte = "8 word"
type_synonym go_int = "64 word"
type_synonym go_uint64 = "64 word"

definition go_byte :: "char \<Rightarrow> byte" where
  "go_byte c = of_char c"

definition is_digit :: "char \<Rightarrow> bool" where
  "is_digit c \<longleftrightarrow> (48::nat) \<le> of_char c \<and> of_char c \<le> (57::nat)"

definition digit_val :: "char \<Rightarrow> nat" where
  "digit_val c = of_char c - 48"

definition horner :: "nat \<Rightarrow> string \<Rightarrow> nat" where
  "horner m cs = foldl (\<lambda>a c. 10 * a + digit_val c) m cs"

abbreviation decimal_value :: "string \<Rightarrow> nat" where
  "decimal_value cs \<equiv> horner 0 cs"

definition digit_char :: "nat \<Rightarrow> char" where
  "digit_char d = char_of (48 + d)"

text \<open>The reference decimal printer: most significant digit first, no leading zeros.\<close>

fun dec_string :: "nat \<Rightarrow> string" where
  "dec_string n = (if n < 10 then [digit_char n] else dec_string (n div 10) @ [digit_char (n mod 10)])"

declare dec_string.simps [simp del]

subsection \<open>Decimal digits\<close>

lemma horner_Nil [simp]: "horner m [] = m"
  by (simp add: horner_def)

lemma horner_Cons [simp]: "horner m (c # cs) = horner (10 * m + digit_val c) cs"
  by (simp add: horner_def)

lemma horner_append: "horner m (xs @ ys) = horner (horner m xs) ys"
  by (simp add: horner_def)

lemma horner_mono_acc: "m \<le> m' \<Longrightarrow> horner m cs \<le> horner m' cs"
  by (induction cs arbitrary: m m') auto

lemma horner_lower: "m * 10 ^ length cs \<le> horner m cs"
proof (induction cs arbitrary: m)
  case Nil
  then show ?case by simp
next
  case (Cons c cs)
  have "(10 * m) * 10 ^ length cs \<le> horner (10 * m + digit_val c) cs"
    using Cons.IH [of "10 * m + digit_val c"] horner_mono_acc [of "10 * m" "10 * m + digit_val c" cs]
    by (meson le_add1 order_trans Cons.IH)
  then show ?case by (simp add: ac_simps)
qed

lemma horner_ge_acc: "m \<le> horner m cs"
proof (induction cs arbitrary: m)
  case Nil
  then show ?case by simp
next
  case (Cons c cs)
  have "m \<le> 10 * m + digit_val c" by simp
  also have "\<dots> \<le> horner (10 * m + digit_val c) cs" by (rule Cons.IH)
  finally show ?case by simp
qed

lemma digit_val_less [intro]: "is_digit c \<Longrightarrow> digit_val c < 10"
  unfolding is_digit_def digit_val_def by linarith

lemma horner_upper:
  "list_all is_digit cs \<Longrightarrow> horner m cs < (m + 1) * 10 ^ length cs"
proof (induction cs arbitrary: m)
  case Nil
  then show ?case by simp
next
  case (Cons c cs)
  then have d: "digit_val c < 10" by auto
  from Cons have "horner (10 * m + digit_val c) cs < (10 * m + digit_val c + 1) * 10 ^ length cs"
    by simp
  also have "\<dots> \<le> (m + 1) * 10 * 10 ^ length cs"
    using d by (intro mult_le_mono1) simp
  also have "\<dots> = (m + 1) * 10 ^ length (c # cs)"
    by (simp add: algebra_simps)
  finally show ?case by simp
qed

lemma digit_char_digit [simp]: "d < 10 \<Longrightarrow> is_digit (digit_char d)"
  by (simp add: is_digit_def digit_char_def)

lemma digit_val_digit_char [simp]: "d < 10 \<Longrightarrow> digit_val (digit_char d) = d"
  by (simp add: digit_val_def digit_char_def)

lemma dec_string_digits: "list_all is_digit (dec_string n)"
  by (induction n rule: dec_string.induct) (subst dec_string.simps, simp)

lemma dec_string_value: "horner 0 (dec_string n) = n"
proof (induction n rule: dec_string.induct)
  case (1 n)
  show ?case
  proof (cases "n < 10")
    case True
    then show ?thesis by (subst dec_string.simps) simp
  next
    case False
    with "1.IH" have "horner 0 (dec_string (n div 10)) = n div 10" by simp
    with False show ?thesis by (subst dec_string.simps) (simp add: horner_append)
  qed
qed

lemma dec_string_nonempty: "dec_string n \<noteq> []"
  by (subst dec_string.simps) simp

lemma dec_string_nondigit: "\<not> is_digit c \<Longrightarrow> c \<notin> set (dec_string n)"
  using dec_string_digits [of n] by (auto simp: list_all_iff)

lemma dec_string_hd_digit: "is_digit (hd (dec_string n))"
  using dec_string_digits [of n] dec_string_nonempty [of n] by (cases "dec_string n") simp_all

lemma dec_string_length: "n < 10 ^ k \<Longrightarrow> 0 < k \<Longrightarrow> length (dec_string n) \<le> k"
proof (induction n arbitrary: k rule: dec_string.induct)
  case (1 n)
  show ?case
  proof (cases "n < 10")
    case True
    with "1.prems" show ?thesis by (subst dec_string.simps) simp
  next
    case False
    then obtain k' where k: "k = Suc k'" using "1.prems" by (cases k) auto
    with False "1.prems"(1) have "n div 10 < 10 ^ k'" by (simp add: less_mult_imp_div_less mult.commute)
    moreover have "0 < k'" using False "1.prems"(1) k by (cases k') auto
    ultimately have "length (dec_string (n div 10)) \<le> k'" using "1.IH" False by simp
    with False k show ?thesis by (subst dec_string.simps) simp
  qed
qed

lemma dec_string_hd_zero: "hd (dec_string n) = CHR ''0'' \<Longrightarrow> n = 0"
proof (induction n rule: dec_string.induct)
  case (1 n)
  show ?case
  proof (cases "n < 10")
    case True
    then have "digit_char n = CHR ''0''" using "1.prems" by (subst (asm) dec_string.simps) simp
    then have "digit_val (digit_char n) = 0" by (simp add: digit_val_def)
    then show ?thesis using True by simp
  next
    case False
    then have "hd (dec_string (n div 10)) = CHR ''0''"
      using "1.prems" dec_string_nonempty [of "n div 10"] by (subst (asm) dec_string.simps) simp
    then have "n div 10 = 0" using "1.IH" False by simp
    then show ?thesis using False by simp
  qed
qed

subsection \<open>Bytes of characters\<close>

lemma go_byte_char_of [model_simps]: "go_byte (char_of n) = of_nat n"
proof -
  have "go_byte (char_of n) = of_nat (of_char (char_of n))" by (simp only: go_byte_def of_nat_of_char)
  also have "\<dots> = of_nat (n mod 256)" by simp
  also have "\<dots> = of_nat n" by (simp add: word_unat_eq_iff unat_of_nat)
  finally show ?thesis .
qed

lemma go_byte_Char [model_simps]: "go_byte (Char b0 b1 b2 b3 b4 b5 b6 b7) = of_char (Char b0 b1 b2 b3 b4 b5 b6 b7)"
  by (simp add: go_byte_def)

declare char_of_eq_iff [model_simps] horner_def [model_simps] digit_val_def [model_simps]
  is_digit_def [model_simps] Let_def [model_simps]

lemma unat_go_byte: "unat (go_byte c) = of_char c"
proof -
  have "unat (of_nat (of_char c) :: byte) = of_char c mod 2 ^ LENGTH(8)"
    by (rule unat_of_nat)
  then show ?thesis
    using nat_of_char_less_256 [of c] unfolding go_byte_def by (simp only: of_nat_of_char) simp
qed

subsection \<open>Signed reading of 64-bit words\<close>

lemma sint_as_uint: "sint (v::64 word) = (if uint v < 2 ^ 63 then uint v else uint v - 2 ^ 64)"
proof -
  have u: "0 \<le> uint v" "uint v < 2 ^ 64" using uint_lt2p [of v] by simp_all
  have "sint v = signed_take_bit 63 (uint v)" by (simp add: sint_uint)
  also have "\<dots> = take_bit 64 (uint v) - 2 ^ 64 * of_bool (bit (uint v) 63)"
    by (simp add: signed_take_bit_eq_take_bit_minus)
  also have "take_bit 64 (uint v) = uint v" using u by (simp add: take_bit_int_eq_self)
  also have "bit (uint v) 63 \<longleftrightarrow> \<not> uint v < 2 ^ 63"
  proof (cases "uint v < 2 ^ 63")
    case True
    then have "uint v div 2 ^ 63 = 0" using u by simp
    then show ?thesis using True by (simp add: bit_iff_odd)
  next
    case False
    then have "uint v div 2 ^ 63 = 1" using u by simp
    then show ?thesis using False by (simp add: bit_iff_odd)
  qed
  finally show ?thesis by auto
qed
lemma sint_nonneg_unat: "0 \<le> sint (v::64 word) \<Longrightarrow> unat v < 2 ^ 63"
proof -
  assume p: "0 \<le> sint v"
  have "uint v < 2 ^ 64" using uint_lt2p [of v] by simp
  then have u: "uint v < 2 ^ 63"
    using p sint_as_uint [of v] by (cases "uint v < 2 ^ 63") simp_all
  then show ?thesis by (metis of_nat_less_numeral_iff of_nat_unat numeral_pow)
qed
lemma sint_neg_unat_minus: "sint (v::64 word) < 0 \<Longrightarrow> unat (- v) \<le> 2 ^ 63"
proof -
  assume n: "sint v < 0"
  then have big: "2 ^ 63 \<le> uint v" using sint_as_uint [of v] by (simp split: if_splits)
  have "uint (- v) = (- uint v) mod 2 ^ 64" by (simp add: uint_word_ariths)
  also have "\<dots> = 2 ^ 64 - uint v"
    using big uint_lt2p [of v] by (simp add: zmod_zminus1_eq_if)
  finally have "uint (- v) \<le> 2 ^ 63" using big by simp
  then show ?thesis by (metis of_nat_le_numeral_iff of_nat_unat numeral_pow)
qed
lemma sint_nonneg_eq_unat: "0 \<le> sint (v::64 word) \<Longrightarrow> sint v = int (unat v)"
  using sint_as_uint [of v] uint_lt2p [of v] by (simp split: if_splits)

lemma sint_neg_unat_minus_eq: "sint (v::64 word) < 0 \<Longrightarrow> int (unat (- v)) = - sint v"
proof -
  assume n: "sint v < 0"
  have u: "2 ^ 63 \<le> uint v" "uint v < 2 ^ 64" using sint_as_uint [of v] n uint_lt2p [of v] by (auto split: if_splits)
  have "uint (- v) = (- uint v) mod 2 ^ 64" by (simp add: uint_word_ariths)
  also have "\<dots> = 2 ^ 64 - uint v" using u by (simp add: zmod_zminus1_eq_if)
  finally have "uint (- v) = 2 ^ 64 - uint v" .
  moreover have "sint v = uint v - 2 ^ 64" using sint_as_uint [of v] u by simp
  ultimately show ?thesis by simp
qed
end
