(* ===== verification/GoStrconv.thy ===== *)
theory GoStrconv
  imports Prelude
begin

text \<open>
  The decimal conversions the tunnel performs: \<open>strconv.Atoi\<close> parses the command-line
  port in \<open>main\<close> (\<open>src/main.go\<close>, lines 124--128) and the port string of the listener
  address in \<open>Start\<close> (line 57); \<open>internal/itoa.Itoa\<close> prints the port into that
  address (\<open>TCPAddr.String\<close>).  These functions belong to the Go standard library; they
  are modelled as the Go 1.2x sources write them for base 10 on a 64-bit platform:
  \<open>Atoi\<close> with its fast path for strings of 1 to 18 bytes and its fall-back to
  \<open>ParseInt(s, 10, 0)\<close>, which strips a sign and calls \<open>ParseUint\<close>, whose loop
  checks each byte and guards the \<open>uint64\<close> accumulator against overflow.  Values are
  \<open>64 word\<close>s, so Go's wrap-around (\<open>int64(un)\<close>, \<open>-n\<close>, \<open>n1 < n\<close>) is the
  model's own arithmetic.  An error is \<open>ErrSyntax\<close> or \<open>ErrRange\<close>, returned beside
  the value the Go function returns with it (0, or the clamped bound).
\<close>

unbundle bit_operations_syntax

datatype num_error = ErrSyntax | ErrRange

definition max_uint64 :: go_uint64 where
  "max_uint64 = - 1"

definition uint64_cutoff10 :: go_uint64 where
  "uint64_cutoff10 = max_uint64 div 10 + 1"

text \<open>\<open>lower(c) = c | ('x' - 'X')\<close>.\<close>

definition lower :: "byte \<Rightarrow> byte" where
  "lower c = c OR (go_byte CHR ''x'' - go_byte CHR ''X'')"

text \<open>The digit switch of \<open>ParseUint\<close>'s loop; \<open>None\<close> is its \<open>default\<close> branch.\<close>

definition digit_of :: "byte \<Rightarrow> byte option" where
  "digit_of c =
     (if go_byte CHR ''0'' \<le> c \<and> c \<le> go_byte CHR ''9'' then Some (c - go_byte CHR ''0'')
      else if go_byte CHR ''a'' \<le> lower c \<and> lower c \<le> go_byte CHR ''z''
      then Some (lower c - go_byte CHR ''a'' + 10)
      else None)"

text \<open>The loop of \<open>ParseUint(s, 10, 64)\<close>, over the bytes of \<open>s\<close>.\<close>

fun parse_uint_loop :: "go_uint64 \<Rightarrow> string \<Rightarrow> go_uint64 \<times> num_error option" where
  "parse_uint_loop n [] = (n, None)"
| "parse_uint_loop n (c # cs) =
     (case digit_of (go_byte c) of
        None \<Rightarrow> (0, Some ErrSyntax)
      | Some d \<Rightarrow>
          if d \<ge> 10 then (0, Some ErrSyntax)
          else if n \<ge> uint64_cutoff10 then (max_uint64, Some ErrRange)
          else (let n' = n * 10; n1 = n' + ucast d in
                if n1 < n' \<or> n1 > max_uint64 then (max_uint64, Some ErrRange)
                else parse_uint_loop n1 cs))"

definition parse_uint :: "string \<Rightarrow> go_uint64 \<times> num_error option" where
  "parse_uint s = (if s = [] then (0, Some ErrSyntax) else parse_uint_loop 0 s)"

text \<open>\<open>ParseInt(s, 10, 0)\<close>: pick off the sign, convert, check the range of \<open>int64\<close>.\<close>

definition parse_int :: "string \<Rightarrow> go_int \<times> num_error option" where
  "parse_int s =
     (if s = [] then (0, Some ErrSyntax)
      else
        let (neg, s') =
              (if hd s = CHR ''+'' then (False, tl s)
               else if hd s = CHR ''-'' then (True, tl s) else (False, s));
            (un, err) = parse_uint s';
            cutoff = (2::go_uint64) ^ 63
        in if err \<noteq> None \<and> err \<noteq> Some ErrRange then (0, err)
           else if \<not> neg \<and> un \<ge> cutoff then (cutoff - 1, Some ErrRange)
           else if neg \<and> un > cutoff then (- cutoff, Some ErrRange)
           else (if neg then - un else un, None))"

text \<open>The fast path of \<open>Atoi\<close>: \<open>ch -= '0'\<close> on a byte, so a byte below \<open>'0'\<close> wraps
  round to a large value and fails the test \<open>ch > 9\<close>.\<close>

fun atoi_digits :: "go_int \<Rightarrow> string \<Rightarrow> go_int option" where
  "atoi_digits n [] = Some n"
| "atoi_digits n (c # cs) =
     (let ch = go_byte c - go_byte CHR ''0'' in
      if ch > 9 then None else atoi_digits (n * 10 + ucast ch) cs)"

definition atoi :: "string \<Rightarrow> go_int \<times> num_error option" where
  "atoi s =
     (let sLen = length s in
      if 0 < sLen \<and> sLen < 19 then
        (let s' = (if hd s = CHR ''-'' \<or> hd s = CHR ''+'' then tl s else s) in
         if s' = [] then (0, Some ErrSyntax)
         else (case atoi_digits 0 s' of
                 None \<Rightarrow> (0, Some ErrSyntax)
               | Some n \<Rightarrow> (if hd s = CHR ''-'' then - n else n, None)))
      else parse_int s)"

text \<open>\<open>internal/itoa.Uitoa\<close>: digits are written right to left into a 20-byte buffer;
  the list \<open>buf\<close> is the filled tail \<open>buf[i+1:]\<close> of that buffer, and each
  \<open>byte('0' + val - q*10)\<close> truncates to a byte before it becomes a character.\<close>

function uitoa_loop :: "go_uint64 \<Rightarrow> string \<Rightarrow> string" where
  "uitoa_loop val buf =
     (if val \<ge> 10 then
        (let q = val div 10 in
         uitoa_loop q (char_of (unat (ucast (48 + val - q * 10) :: byte)) # buf))
      else char_of (unat (ucast (48 + val) :: byte)) # buf)"
  by pat_completeness auto
termination
proof (relation "measure (\<lambda>(val, buf). unat val)")
  fix val :: go_uint64 and buf :: string and q
  assume "10 \<le> val" and "q = val div 10"
  then show "((q, char_of (unat (ucast (48 + val - q * 10) :: byte)) # buf), (val, buf))
               \<in> measure (\<lambda>(val, buf). unat val)"
    by (simp add: unat_div word_le_nat_alt)
qed simp

declare uitoa_loop.simps [simp del]

definition uitoa :: "go_uint64 \<Rightarrow> string" where
  "uitoa val = (if val = 0 then ''0'' else uitoa_loop val [])"

definition itoa :: "go_int \<Rightarrow> string" where
  "itoa val = (if sint val < 0 then ''-'' @ uitoa (- val) else uitoa val)"

subsection \<open>The byte tests of the digit loops\<close>

lemma go_byte_sub_zero_le9: "go_byte c - go_byte CHR ''0'' \<le> 9 \<longleftrightarrow> is_digit c"
proof -
  have u: "unat (go_byte c) = of_char c" by (rule unat_go_byte)
  have z: "go_byte CHR ''0'' = 48" by (simp add: go_byte_def)
  have lt: "of_char c < (256::nat)" by (rule nat_of_char_less_256)
  show ?thesis
  proof (cases "(48::nat) \<le> of_char c")
    case True
    then have "unat (go_byte c - 48) = of_char c - 48"
      using u by (simp add: unat_sub word_le_nat_alt)
    then show ?thesis using True unfolding z word_le_nat_alt is_digit_def by simp linarith
  next
    case False
    then have "go_byte c < 48" using u by (simp add: word_less_nat_alt)
    then have "unat (go_byte c - 48) = of_char c + 256 - 48"
      using u by (simp add: unat_sub_if' word_less_nat_alt)
    then show ?thesis using False lt by (simp add: z word_le_nat_alt is_digit_def)
  qed
qed

lemma unat_digit_byte: "is_digit c \<Longrightarrow> unat (go_byte c - go_byte CHR ''0'') = digit_val c"
proof -
  assume d: "is_digit c"
  have z: "go_byte CHR ''0'' = 48" by (simp add: go_byte_def)
  have "48 \<le> go_byte c" using d by (simp add: word_le_nat_alt unat_go_byte is_digit_def)
  then show ?thesis by (simp add: z unat_sub unat_go_byte digit_val_def)
qed

lemma ucast_digit_byte: "is_digit c \<Longrightarrow> (ucast (go_byte c - go_byte CHR ''0'') :: 64 word) = of_nat (digit_val c)"
  by (metis unat_digit_byte of_nat_unat)

lemma digit_of_digit:
  assumes "is_digit c"
  shows "digit_of (go_byte c) = Some (go_byte c - go_byte CHR ''0'')"
proof -
  have "go_byte CHR ''0'' \<le> go_byte c \<and> go_byte c \<le> go_byte CHR ''9''"
    using assms by (simp add: word_le_nat_alt unat_go_byte is_digit_def)
  then show ?thesis by (simp add: digit_of_def)
qed

lemma digit_of_nondigit:
  assumes "\<not> is_digit c"
  shows "case digit_of (go_byte c) of None \<Rightarrow> True | Some d \<Rightarrow> 10 \<le> d"
proof -
  have nd: "\<not> (go_byte CHR ''0'' \<le> go_byte c \<and> go_byte c \<le> go_byte CHR ''9'')"
    using assms by (simp add: word_le_nat_alt unat_go_byte is_digit_def)
  have letter: "10 \<le> lower (go_byte c) - go_byte CHR ''a'' + 10"
    if "go_byte CHR ''a'' \<le> lower (go_byte c)" "lower (go_byte c) \<le> go_byte CHR ''z''"
  proof -
    let ?l = "lower (go_byte c)"
    have a: "go_byte CHR ''a'' = 97" and z: "go_byte CHR ''z'' = 122" by (simp_all add: go_byte_def)
    have "unat (?l - 97) = unat ?l - 97" "unat ?l \<le> 122" "97 \<le> unat ?l"
      using that by (simp_all add: a z unat_sub word_le_nat_alt)
    then have "unat (?l - 97) + unat (10::byte) < 2 ^ LENGTH(8)"
      by simp
    then have "unat (?l - 97 + 10) = unat (?l - 97) + unat (10::byte)"
      by (rule unat_add_lem [THEN iffD1])
    then have "unat (10::byte) \<le> unat (?l - 97 + 10)"
      by linarith
    then show ?thesis by (simp only: a word_le_nat_alt)
  qed
  show ?thesis using nd letter by (auto simp: digit_of_def)
qed

lemma atoi_digits_digit:
  assumes "is_digit c"
  shows "atoi_digits n (c # cs) = atoi_digits (n * 10 + of_nat (digit_val c)) cs"
proof -
  have "\<not> go_byte c - go_byte CHR ''0'' > 9"
    using go_byte_sub_zero_le9 [of c] assms by (simp add: not_less)
  then show ?thesis using ucast_digit_byte [OF assms] by (simp add: Let_def)
qed

lemma atoi_digits_nondigit: "\<not> is_digit c \<Longrightarrow> atoi_digits n (c # cs) = None"
  using go_byte_sub_zero_le9 [of c] by (simp add: Let_def not_le)

lemma atoi_digits_value:
  "atoi_digits (of_nat m) cs = (if list_all is_digit cs then Some (of_nat (horner m cs)) else None)"
proof (induction cs arbitrary: m)
  case Nil
  then show ?case by simp
next
  case (Cons c cs)
  show ?case
  proof (cases "is_digit c")
    case True
    have e: "of_nat m * 10 + of_nat (digit_val c) = (of_nat (10 * m + digit_val c) :: go_int)"
      by simp
    have "atoi_digits (of_nat m) (c # cs) = atoi_digits (of_nat (10 * m + digit_val c)) cs"
      using atoi_digits_digit [OF True, of "of_nat m" cs] by (simp only: e)
    with True Cons.IH [of "10 * m + digit_val c"] show ?thesis
      by (simp del: atoi_digits.simps(2))
  next
    case False
    then show ?thesis by (simp add: atoi_digits_nondigit del: atoi_digits.simps(2))
  qed
qed

lemma parse_uint_loop_digit:
  assumes d: "is_digit c" and small: "10 * m + digit_val c < 2 ^ 64"
  shows "parse_uint_loop (of_nat m) (c # cs) = parse_uint_loop (of_nat (10 * m + digit_val c)) cs"
proof -
  let ?d = "go_byte c - go_byte CHR ''0''"
  have ud: "unat ?d = digit_val c" using d by (rule unat_digit_byte)
  have dv: "digit_val c < 10" using d by (rule digit_val_less)
  have m: "m < 1844674407370955162" using small by simp
  have um: "unat (of_nat m :: go_uint64) = m" using m by (simp add: unat_of_nat)
  have cut: "\<not> (of_nat m :: go_uint64) \<ge> uint64_cutoff10"
    using m um by (simp add: word_le_nat_alt uint64_cutoff10_def max_uint64_def)
  have ten: "\<not> (10 \<le> ?d)" using ud dv by (simp add: word_le_nat_alt)
  have uc: "(ucast ?d :: go_uint64) = of_nat (digit_val c)"
    using ud by (metis of_nat_unat)
  have n': "(of_nat m * 10 :: go_uint64) = of_nat (10 * m)"
    by simp
  have n1: "(of_nat m * 10 + ucast ?d :: go_uint64) = of_nat (10 * m + digit_val c)"
    by (simp add: uc n')
  have "unat (of_nat (10 * m + digit_val c) :: go_uint64) = 10 * m + digit_val c"
    using small by (simp only: unat_of_nat) simp
  moreover have "10 * m < 2 ^ 64" using small by linarith
  then have "unat (of_nat m * 10 :: go_uint64) = 10 * m"
    by (simp only: n' unat_of_nat) simp
  ultimately have nowrap: "\<not> (of_nat m * 10 + ucast ?d :: go_uint64) < of_nat m * 10"
    by (simp add: n1 word_less_nat_alt)
  have nomax: "\<not> (of_nat m * 10 + ucast ?d :: go_uint64) > max_uint64"
    by (simp add: max_uint64_def)
  show ?thesis
    using digit_of_digit [OF d] ten cut nowrap nomax by (simp add: Let_def n1)
qed

subsection \<open>The loops on digit strings\<close>

lemma parse_uint_loop_nondigit: "\<not> is_digit c \<Longrightarrow> parse_uint_loop n (c # cs) = (0, Some ErrSyntax)"
  using digit_of_nondigit [of c] by (auto split: option.splits)

lemma parse_uint_loop_digits:
  "list_all is_digit cs \<Longrightarrow> horner m cs < 2 ^ 64 \<Longrightarrow>
   parse_uint_loop (of_nat m) cs = (of_nat (horner m cs), None)"
proof (induction cs arbitrary: m)
  case Nil
  then show ?case by simp
next
  case (Cons c cs)
  have "10 * m + digit_val c \<le> horner m (c # cs)"
    using horner_ge_acc [of "10 * m + digit_val c" cs] by simp
  with Cons.prems have small: "10 * m + digit_val c < 2 ^ 64" by linarith
  from Cons.prems have d: "is_digit c" and ds: "list_all is_digit cs"
    and h: "horner (10 * m + digit_val c) cs < 2 ^ 64" by simp_all
  have "parse_uint_loop (of_nat m) (c # cs) = parse_uint_loop (of_nat (10 * m + digit_val c)) cs"
    using d small by (rule parse_uint_loop_digit)
  also have "\<dots> = (of_nat (horner (10 * m + digit_val c) cs), None)"
    using ds h by (rule Cons.IH)
  finally show ?case by simp
qed

lemma parse_uint_loop_short:
  "m < 10 ^ k \<Longrightarrow> k + length cs \<le> 18 \<Longrightarrow>
   parse_uint_loop (of_nat m) cs =
     (case atoi_digits (of_nat m) cs of None \<Rightarrow> (0, Some ErrSyntax) | Some n \<Rightarrow> (n, None))"
proof (induction cs arbitrary: m k)
  case Nil
  then show ?case by simp
next
  case (Cons c cs)
  show ?case
  proof (cases "is_digit c")
    case True
    have "digit_val c < 10" using True by (rule digit_val_less)
    with Cons.prems(1) have lt: "10 * m + digit_val c < 10 ^ Suc k" by simp
    have "(10::nat) ^ Suc k \<le> 10 ^ 18"
      using Cons.prems(2) by (intro power_increasing) simp_all
    with lt have small: "10 * m + digit_val c < 2 ^ 64" by simp
    have e: "of_nat m * 10 + of_nat (digit_val c) = (of_nat (10 * m + digit_val c) :: go_int)"
      by simp
    have "atoi_digits (of_nat m) (c # cs) = atoi_digits (of_nat (10 * m + digit_val c)) cs"
      using atoi_digits_digit [OF True, of "of_nat m" cs] by (simp only: e)
    moreover have "parse_uint_loop (of_nat m) (c # cs) = parse_uint_loop (of_nat (10 * m + digit_val c)) cs"
      using True small by (rule parse_uint_loop_digit)
    moreover have "Suc k + length cs \<le> 18" using Cons.prems(2) by simp
    ultimately show ?thesis using Cons.IH [OF lt] by (simp del: atoi_digits.simps(2) parse_uint_loop.simps(2))
  next
    case False
    then show ?thesis
      by (simp add: atoi_digits_nondigit parse_uint_loop_nondigit del: atoi_digits.simps(2) parse_uint_loop.simps(2))
  qed
qed

lemma atoi_digits_bound:
  "atoi_digits 0 r = Some n \<Longrightarrow> length r \<le> 18 \<Longrightarrow> unat n < 10 ^ 18"
proof -
  assume a: "atoi_digits 0 r = Some n" and l: "length r \<le> 18"
  from a have d: "list_all is_digit r" and n: "n = of_nat (horner 0 r)"
    using atoi_digits_value [of 0 r] by (simp_all split: if_splits)
  have "horner 0 r < 10 ^ length r" using horner_upper [OF d, of 0] by simp
  also have "\<dots> \<le> 10 ^ 18" using l by (intro power_increasing) simp_all
  finally have "horner 0 r < 10 ^ 18" .
  then show ?thesis by (simp add: n unat_of_nat)
qed

lemma parse_uint_short:
  "r \<noteq> [] \<Longrightarrow> length r \<le> 18 \<Longrightarrow>
   parse_uint r = (case atoi_digits 0 r of None \<Rightarrow> (0, Some ErrSyntax) | Some n \<Rightarrow> (n, None))"
  using parse_uint_loop_short [of 0 0 r] by (simp add: parse_uint_def)

lemma parse_int_tail_short:
  assumes "r \<noteq> []" and "length r \<le> 18"
  shows "(let (un, err) = parse_uint r; cutoff = (2::go_uint64) ^ 63
          in if err \<noteq> None \<and> err \<noteq> Some ErrRange then (0, err)
             else if \<not> neg \<and> un \<ge> cutoff then (cutoff - 1, Some ErrRange)
             else if neg \<and> un > cutoff then (- cutoff, Some ErrRange)
             else (if neg then - un else un, None))
       = (case atoi_digits 0 r of None \<Rightarrow> (0, Some ErrSyntax)
            | Some n \<Rightarrow> (if neg then - n else n, None))"
proof (cases "atoi_digits 0 r")
  case None
  then show ?thesis using parse_uint_short [OF assms] by simp
next
  case (Some n)
  have "unat n < 10 ^ 18" using Some assms(2) by (rule atoi_digits_bound)
  then have "\<not> n \<ge> (2::go_uint64) ^ 63" and "\<not> n > (2::go_uint64) ^ 63"
    by (simp_all add: word_le_nat_alt word_less_nat_alt)
  then show ?thesis using Some parse_uint_short [OF assms] by simp
qed

lemma atoi_short_eq_parse_int:
  assumes "0 < length s" and "length s < 19"
  shows "atoi s = parse_int s"
proof -
  obtain c r where s: "s = c # r" using assms(1) by (cases s) auto
  have lr: "length r \<le> 18" using assms(2) s by simp
  have pm: "CHR ''+'' \<noteq> CHR ''-''" by simp
  consider (plus) "c = CHR ''+''" | (minus) "c = CHR ''-''" | (other) "c \<noteq> CHR ''+''" "c \<noteq> CHR ''-''"
    by blast
  then show ?thesis
  proof cases
    case plus
    show ?thesis
    proof (cases "r = []")
      case True
      then show ?thesis by (simp add: s plus atoi_def parse_int_def parse_uint_def)
    next
      case False
      show ?thesis
        using parse_int_tail_short [OF False lr, of False] False pm
        by (simp add: s plus atoi_def parse_int_def del: atoi_digits.simps split: option.split)
    qed
  next
    case minus
    show ?thesis
    proof (cases "r = []")
      case True
      then show ?thesis by (simp add: s minus atoi_def parse_int_def parse_uint_def)
    next
      case False
      show ?thesis
        using parse_int_tail_short [OF False lr, of True] False pm
        by (simp add: s minus atoi_def parse_int_def del: atoi_digits.simps split: option.split)
    qed
  next
    case other
    have "length s \<le> 18" using assms(2) by simp
    then show ?thesis
      using parse_int_tail_short [of s False] other
      by (simp add: s atoi_def parse_int_def del: atoi_digits.simps split: option.split)
  qed
qed


subsection \<open>The buffer loop of Uitoa\<close>

lemma digit_byte_char: "d < 10 \<Longrightarrow> char_of (unat (ucast (48 + of_nat d :: go_uint64) :: byte)) = digit_char d"
proof -
  assume d: "d < 10"
  have e: "(48 + of_nat d :: go_uint64) = of_nat (48 + d)" by simp
  have "unat (of_nat (48 + d) :: go_uint64) = 48 + d"
    using d by (simp only: unat_of_nat) simp
  then have "unat (48 + of_nat d :: go_uint64) = 48 + d" by (simp only: e)
  then have "unat (ucast (48 + of_nat d :: go_uint64) :: byte) = 48 + d"
    using d by (simp add: unsigned_ucast_eq take_bit_nat_eq_self)
  then show ?thesis by (simp add: digit_char_def)
qed

lemma uitoa_loop_dec_string: "uitoa_loop val buf = dec_string (unat val) @ buf"
proof (induction val buf rule: uitoa_loop.induct)
  case (1 val buf)
  show ?case
  proof (cases "10 \<le> val")
    case True
    let ?q = "val div 10"
    have "val - ?q * 10 = val mod 10" by (simp add: minus_div_mult_eq_mod)
    also have "\<dots> = of_nat (unat (val mod 10))" by simp
    also have "unat (val mod 10) = unat val mod 10" by (simp add: unat_mod)
    finally have m: "val - ?q * 10 = of_nat (unat val mod 10)" .
    have ge: "\<not> unat val < 10" using True by (simp add: word_le_nat_alt)
    let ?ch = "char_of (unat (ucast (48 + val - ?q * 10) :: byte))"
    have ch: "?ch = digit_char (unat val mod 10)"
      using digit_byte_char [of "unat val mod 10"] by (simp add: m add_diff_eq [symmetric])
    have "uitoa_loop val buf = uitoa_loop ?q (?ch # buf)"
      using True by (subst uitoa_loop.simps) (simp add: Let_def)
    also have "\<dots> = dec_string (unat ?q) @ ?ch # buf"
      by (rule "1.IH" [OF True refl])
    also have "\<dots> = dec_string (unat ?q) @ digit_char (unat val mod 10) # buf"
      by (simp only: ch)
    also have "\<dots> = dec_string (unat val) @ buf"
      using ge by (subst (2) dec_string.simps) (simp add: unat_div)
    finally show ?thesis .
  next
    case False
    then have lt: "unat val < 10" by (simp add: word_le_nat_alt)
    have "(val :: go_uint64) = of_nat (unat val)" by simp
    then have "char_of (unat (ucast (48 + val) :: byte)) = digit_char (unat val)"
      using digit_byte_char [OF lt] by metis
    with False lt show ?thesis by (subst uitoa_loop.simps, subst dec_string.simps) simp
  qed
qed

subsection \<open>Printing and parsing decimal strings\<close>

lemma digit_char_zero: "digit_char 0 = CHR ''0''"
  by (simp add: digit_char_def char_of_eq_iff)

lemma uitoa_dec_string: "uitoa v = dec_string (unat v)"
proof (cases "v = 0")
  case True
  then show ?thesis by (simp add: uitoa_def dec_string.simps digit_char_zero)
next
  case False
  then show ?thesis by (simp add: uitoa_def uitoa_loop_dec_string)
qed

lemma parse_uint_dec_string: "n < 2 ^ 64 \<Longrightarrow> parse_uint (dec_string n) = (of_nat n, None)"
  using parse_uint_loop_digits [of "dec_string n" 0] dec_string_digits [of n] dec_string_value [of n]
  by (simp add: parse_uint_def dec_string_nonempty)

lemma dec_string_hd_unsigned: "hd (dec_string n) \<noteq> CHR ''+'' \<and> hd (dec_string n) \<noteq> CHR ''-''"
  using dec_string_hd_digit [of n] by (auto simp: is_digit_def)

lemma parse_int_uitoa_nonneg: "0 \<le> sint w \<Longrightarrow> parse_int (uitoa w) = (w, None)"
proof -
  assume p: "0 \<le> sint w"
  have lt: "unat w < 2 ^ 63" using p by (rule sint_nonneg_unat)
  then have pu: "parse_uint (dec_string (unat w)) = (w, None)"
    using parse_uint_dec_string [of "unat w"] by simp
  have "\<not> w \<ge> (2::go_uint64) ^ 63" using lt by (simp add: word_le_nat_alt)
  then show ?thesis
    using pu dec_string_hd_unsigned [of "unat w"] dec_string_nonempty [of "unat w"]
    by (simp add: uitoa_dec_string parse_int_def)
qed

lemma parse_int_itoa_neg: "sint v < 0 \<Longrightarrow> parse_int (''-'' @ uitoa (- v)) = (v, None)"
proof -
  assume n: "sint v < 0"
  have le: "unat (- v) \<le> 2 ^ 63" using n by (rule sint_neg_unat_minus)
  then have pu: "parse_uint (dec_string (unat (- v))) = (- v, None)"
    using parse_uint_dec_string [of "unat (- v)"] by simp
  have "\<not> - v > (2::go_uint64) ^ 63" using le by (simp add: word_less_nat_alt)
  then show ?thesis using pu by (simp add: uitoa_dec_string parse_int_def)
qed

lemma parse_uint_loop_overflow:
  "list_all is_digit cs \<Longrightarrow> 2 ^ 64 \<le> horner m cs \<Longrightarrow> m < 2 ^ 64 \<Longrightarrow>
   parse_uint_loop (of_nat m) cs = (max_uint64, Some ErrRange)"
proof (induction cs arbitrary: m)
  case Nil
  then show ?case by simp
next
  case (Cons c cs)
  from Cons.prems have d: "is_digit c" and ds: "list_all is_digit cs" by simp_all
  have dv: "digit_val c < 10" using d by (rule digit_val_less)
  show ?case
  proof (cases "10 * m + digit_val c < 2 ^ 64")
    case True
    have "parse_uint_loop (of_nat m) (c # cs) = parse_uint_loop (of_nat (10 * m + digit_val c)) cs"
      using d True by (rule parse_uint_loop_digit)
    also have "\<dots> = (max_uint64, Some ErrRange)"
      using Cons.IH [OF ds _ True] Cons.prems(2) by simp
    finally show ?thesis .
  next
    case False
    let ?d = "go_byte c - go_byte CHR ''0''"
    have um: "unat (of_nat m :: go_uint64) = m" using Cons.prems(3) by (simp add: unat_of_nat)
    have ud: "unat ?d = digit_val c" using d by (rule unat_digit_byte)
    have ten: "\<not> (10 \<le> ?d)" using ud dv by (simp add: word_le_nat_alt)
    show ?thesis
    proof (cases "(of_nat m :: go_uint64) \<ge> uint64_cutoff10")
      case True
      then show ?thesis using digit_of_digit [OF d] ten by simp
    next
      case cut: False
      then have m: "m < 1844674407370955162"
        using um by (simp add: word_le_nat_alt uint64_cutoff10_def max_uint64_def)
      have uc: "(ucast ?d :: go_uint64) = of_nat (digit_val c)"
        using ud by (metis of_nat_unat)
      have n': "(of_nat m * 10 :: go_uint64) = of_nat (10 * m)" by simp
      have "10 * m < 2 ^ 64" using m by simp
      then have "unat (of_nat m * 10 :: go_uint64) = 10 * m"
        by (simp only: n' unat_of_nat) simp
      moreover have "unat (of_nat m * 10 + ucast ?d :: go_uint64) = 10 * m + digit_val c - 2 ^ 64"
      proof -
        have "(of_nat m * 10 + ucast ?d :: go_uint64) = of_nat (10 * m + digit_val c)"
          by (simp add: uc)
        moreover have "(10 * m + digit_val c) mod 2 ^ 64 = 10 * m + digit_val c - 2 ^ 64"
        proof -
          have "2 ^ 64 \<le> 10 * m + digit_val c" using False by (simp only: not_less)
          then have "(10 * m + digit_val c) mod 2 ^ 64 = (10 * m + digit_val c - 2 ^ 64) mod 2 ^ 64"
            by (rule le_mod_geq)
          moreover have "10 * m + digit_val c - 2 ^ 64 < (2::nat) ^ 64"
            using m dv by simp
          ultimately show ?thesis by simp
        qed
        ultimately show ?thesis by (simp only: unat_of_nat) simp
      qed
      ultimately have "(of_nat m * 10 + ucast ?d :: go_uint64) < of_nat m * 10"
        using False m dv by (simp add: word_less_nat_alt)
      then show ?thesis using digit_of_digit [OF d] ten cut by (simp add: Let_def)
    qed
  qed
qed


lemma parse_uint_digits:
  assumes "ds \<noteq> []" and "list_all is_digit ds"
  shows "parse_uint ds = (if decimal_value ds < 2 ^ 64 then (of_nat (decimal_value ds), None)
                          else (max_uint64, Some ErrRange))"
  using assms parse_uint_loop_digits [of ds 0] parse_uint_loop_overflow [of ds 0]
  by (simp add: parse_uint_def)

lemma digits_hd_unsigned:
  "ds \<noteq> [] \<Longrightarrow> list_all is_digit ds \<Longrightarrow> hd ds \<noteq> CHR ''+'' \<and> hd ds \<noteq> CHR ''-''"
  by (cases ds) (auto simp: is_digit_def)

subsection \<open>Properties of the conversions\<close>

text \<open>C22: \<open>Atoi\<close>'s fast path is only an optimisation: on every string \<open>Atoi\<close> returns
  exactly what \<open>ParseInt(s, 10, 0)\<close> returns, value and error alike.\<close>

theorem atoi_equiv_parse_int: "atoi s = parse_int s"
  using atoi_short_eq_parse_int [of s] by (cases "0 < length s \<and> length s < 19") (auto simp: atoi_def)

lemma atoi_itoa: "atoi (itoa v) = (v, None)"
proof -
  have "parse_int (itoa v) = (v, None)"
    using parse_int_uitoa_nonneg [of v] parse_int_itoa_neg [of v] by (simp add: itoa_def)
  moreover have "itoa v \<noteq> []"
    by (simp add: itoa_def uitoa_dec_string dec_string_nonempty)
  ultimately show ?thesis
    using atoi_short_eq_parse_int [of "itoa v"] by (cases "length (itoa v) < 19") (simp_all add: atoi_def)
qed

lemma length_uitoa: "length (uitoa v) \<le> 20"
proof -
  have "unat v < 2 ^ LENGTH(64)" by (rule unsigned_less)
  then have "unat v < 10 ^ 20" by simp
  then show ?thesis by (simp add: uitoa_dec_string dec_string_length)
qed

text \<open>C23: printing a Go \<open>int\<close> with \<open>Itoa\<close> gives at most 20 bytes (a sign and 19
  digits), and parsing it back with \<open>Atoi\<close> gives the same 64-bit value and no error,
  for every value including the most negative one.\<close>

theorem itoa_atoi_roundtrip: "length (itoa v) \<le> 20 \<and> atoi (itoa v) = (v, None)"
proof
  show "atoi (itoa v) = (v, None)" by (rule atoi_itoa)
  show "length (itoa v) \<le> 20"
  proof (cases "sint v < 0")
    case True
    have "unat (- v) \<le> 2 ^ 63" using True by (rule sint_neg_unat_minus)
    then have "unat (- v) < 10 ^ 19" by simp
    then show ?thesis using True by (simp add: itoa_def uitoa_dec_string dec_string_length)
  next
    case False
    then show ?thesis using length_uitoa [of v] by (simp add: itoa_def)
  qed
qed

text \<open>C25: \<open>Uitoa\<close>'s right-to-left buffer loop prints the reference decimal string of the
  value, and the result fits the 20-byte buffer it is written into.\<close>

theorem uitoa_refines_dec_string: "uitoa v = dec_string (unat v) \<and> length (uitoa v) \<le> 20"
proof
  show "uitoa v = dec_string (unat v)" by (rule uitoa_dec_string)
  show "length (uitoa v) \<le> 20" by (rule length_uitoa)
qed

text \<open>C26: on an unsigned decimal numeral, \<open>Atoi\<close> returns its value when it fits a
  signed 64-bit \<open>int\<close>, and otherwise \<open>ErrRange\<close> with the value clamped to
  \<open>MaxInt64\<close>.\<close>

theorem atoi_unsigned_numeral:
  assumes "ds \<noteq> []" and "list_all is_digit ds"
  shows "atoi ds = (if decimal_value ds < 2 ^ 63 then (of_nat (decimal_value ds), None)
                    else (2 ^ 63 - 1, Some ErrRange))"
proof -
  let ?v = "decimal_value ds"
  have hd: "hd ds \<noteq> CHR ''+'' \<and> hd ds \<noteq> CHR ''-''" by (rule digits_hd_unsigned [OF assms])
  have "parse_int ds = (if ?v < 2 ^ 63 then (of_nat ?v, None) else (2 ^ 63 - 1, Some ErrRange))"
  proof (cases "?v < 2 ^ 64")
    case True
    have "((2::go_uint64) ^ 63 \<le> of_nat ?v) \<longleftrightarrow> \<not> ?v < 2 ^ 63"
      using True by (simp add: word_le_nat_alt unat_of_nat not_less)
    then show ?thesis using True hd assms(1) by (simp add: parse_int_def parse_uint_digits [OF assms])
  next
    case False
    then show ?thesis using hd assms(1) by (simp add: parse_int_def parse_uint_digits [OF assms] max_uint64_def)
  qed
  then show ?thesis
    using atoi_short_eq_parse_int [of ds] assms(1) by (cases "length ds < 19") (simp_all add: atoi_def)
qed

theorem atoi_unsigned_numeral_witness:
  "''8080'' \<noteq> [] \<and> list_all is_digit ''8080'' \<and> atoi ''8080'' = (8080, None)"
proof -
  have h: "''8080'' \<noteq> []" "list_all is_digit ''8080''" by (simp_all add: is_digit_def)
  show ?thesis using atoi_unsigned_numeral [OF h] h by (simp add: horner_def digit_val_def)
qed

declare atoi_def [model_simps] parse_int_def [model_simps] parse_uint_def [model_simps]
  itoa_def [model_simps] uitoa_def [model_simps] uitoa_loop.simps [model_simps]
  max_uint64_def [model_simps] uint64_cutoff10_def [model_simps] digit_of_def [model_simps]
  lower_def [model_simps]

text \<open>C24: \<open>Itoa\<close> prints a canonical decimal numeral: a minus sign exactly for a
  negative value, then a non-empty string of digits without a leading zero (unless it is
  \<open>"0"\<close>) whose value is the absolute value of the number, the most negative \<open>int\<close>
  included.\<close>

theorem itoa_canonical:
  "\<exists>ds. itoa v = (if sint v < 0 then CHR ''-'' # ds else ds) \<and> ds \<noteq> [] \<and> list_all is_digit ds \<and>
        (hd ds = CHR ''0'' \<longrightarrow> ds = ''0'') \<and> int (decimal_value ds) = \<bar>sint v\<bar>"
proof -
  define u where "u = (if sint v < 0 then unat (- v) else unat v)"
  have val: "int u = \<bar>sint v\<bar>"
    using sint_neg_unat_minus_eq [of v] sint_nonneg_eq_unat [of v] by (auto simp: u_def)
  have it: "itoa v = (if sint v < 0 then CHR ''-'' # dec_string u else dec_string u)"
    by (simp add: itoa_def uitoa_dec_string u_def)
  have z: "dec_string 0 = ''0''" by (subst dec_string.simps) (simp add: digit_char_zero)
  have "hd (dec_string u) = CHR ''0'' \<longrightarrow> dec_string u = ''0''"
    using dec_string_hd_zero [of u] z by auto
  then show ?thesis using it val dec_string_nonempty [of u] dec_string_digits [of u] dec_string_value [of u]
    by (intro exI [of _ "dec_string u"]) simp
qed

theorem itoa_canonical_witness:
  "sint (-405 :: go_int) < 0 \<and>
   (\<exists>ds. itoa (-405) = (if sint (-405 :: go_int) < 0 then CHR ''-'' # ds else ds) \<and> ds \<noteq> [] \<and>
        list_all is_digit ds \<and> (hd ds = CHR ''0'' \<longrightarrow> ds = ''0'') \<and> int (decimal_value ds) = \<bar>sint (-405 :: go_int)\<bar>)"
proof -
  have "sint (-405 :: go_int) = -405" by simp
  then show ?thesis using itoa_canonical [of "-405"] by simp
qed

end
