(* ===== verification/GoNet.thy ===== *)
theory GoNet
  imports GoStrconv
begin

unbundle bit_operations_syntax

text \<open>
  The parts of Go's \<open>net\<close> and \<open>net/netip\<close> packages that \<open>TunnelServer.Start\<close>
  (\<open>src/main.go\<close>, lines 29--65) calls: \<open>IP.To4\<close>, \<open>IP.IsLoopback\<close> and
  \<open>IP.String\<close> for the host-address scan (lines 36--44), and \<open>SplitHostPort\<close> on the
  string \<open>TCPAddr.String\<close> prints for the listener's address (line 52), which is
  \<open>JoinHostPort\<close> of \<open>ipEmptyString\<close> of the IP and \<open>itoa.Itoa\<close> of the port.  An
  \<open>IP\<close> is its byte slice.  \<open>IP.String\<close> is modelled on all its branches: \<open>"<nil>"\<close>,
  \<open>"?"\<close> and the hex bytes for a bad length, the dotted quad when \<open>To4\<close> succeeds, and
  otherwise \<open>netip\<close>'s \<open>appendTo6\<close>, which compresses the first longest run of at least
  two zero groups to \<open>"::"\<close> (RFC 5952).
\<close>

type_synonym ip = "byte list"

datatype iface_addr = IPNetAddr ip ip | OtherAddr

datatype addr_error =
    MissingPort
  | TooManyColons
  | MissingCloseBracket
  | UnexpectedOpenBracket
  | UnexpectedCloseBracket

text \<open>\<open>IP.To4\<close>: a 4-byte slice, or the last 4 bytes of an IPv4-mapped IPv6 address.\<close>

definition to4 :: "ip \<Rightarrow> ip option" where
  "to4 a =
     (if length a = 4 then Some a
      else if length a = 16 \<and> list_all (\<lambda>b. b = 0) (take 10 a) \<and> a ! 10 = 255 \<and> a ! 11 = 255
      then Some (drop 12 a)
      else None)"

definition ipv6_loopback :: ip where
  "ipv6_loopback = replicate 15 0 @ [1]"

definition is_loopback :: "ip \<Rightarrow> bool" where
  "is_loopback a = (case to4 a of Some a4 \<Rightarrow> a4 ! 0 = 127 | None \<Rightarrow> a = ipv6_loopback)"

definition ipv4_string :: "ip \<Rightarrow> string" where
  "ipv4_string a4 = concat (map (\<lambda>b. dec_string (unat b)) (take 1 a4)) @
     concat (map (\<lambda>b. CHR ''.'' # dec_string (unat b)) (drop 1 a4))"

text \<open>\<open>netip\<close>'s \<open>appendHex\<close>: a 16-bit group in lower-case hex without leading zeros.\<close>

definition hex_digits :: string where
  "hex_digits = ''0123456789abcdef''"

definition append_hex :: "16 word \<Rightarrow> string" where
  "append_hex x =
     (if 0x1000 \<le> x then [hex_digits ! unat (drop_bit 12 x)] else []) @
     (if 0x100 \<le> x then [hex_digits ! unat (drop_bit 8 x AND 0xf)] else []) @
     (if 0x10 \<le> x then [hex_digits ! unat (drop_bit 4 x AND 0xf)] else []) @
     [hex_digits ! unat (x AND 0xf)]"

text \<open>\<open>Addr.v6u16\<close>: the \<open>i\<close>-th big-endian 16-bit group of a 16-byte address.\<close>

definition v6u16 :: "ip \<Rightarrow> nat \<Rightarrow> 16 word" where
  "v6u16 a i = push_bit 8 (ucast (a ! (2 * i))) OR ucast (a ! (2 * i + 1))"

text \<open>The inner loop of \<open>appendTo6\<close>: the end of the run of zero groups from \<open>j\<close>.\<close>

function zero_run_end :: "ip \<Rightarrow> nat \<Rightarrow> nat" where
  "zero_run_end a j = (if j < 8 \<and> v6u16 a j = 0 then zero_run_end a (Suc j) else j)"
  by pat_completeness auto
termination by (relation "measure (\<lambda>(a, j). 8 - j)") auto

text \<open>The outer loop of \<open>appendTo6\<close>: the first longest run of at least two zero
  groups, as \<open>(zeroStart, zeroEnd)\<close>; \<open>(255, 255)\<close> when there is none.  The source's
  \<open>uint8\<close> counters stay below 256, so they are natural numbers here.\<close>

function zero_run_scan :: "ip \<Rightarrow> nat \<Rightarrow> nat \<times> nat \<Rightarrow> nat \<times> nat" where
  "zero_run_scan a i (zs, ze) =
     (if i < 8 then
        (let j = zero_run_end a i; l = j - i in
         zero_run_scan a (Suc i) (if 2 \<le> l \<and> ze - zs < l then (i, j) else (zs, ze)))
      else (zs, ze))"
  by pat_completeness auto
termination by (relation "measure (\<lambda>(a, i, _). 8 - i)") auto

text \<open>The printing loop of \<open>appendTo6\<close>, with the loop counter jumping to \<open>zeroEnd\<close>
  after the \<open>"::"\<close>.  Each iteration spends one unit of fuel; nine units always suffice
  (\<open>ip6_string_run\<close>).\<close>

fun append_to6 :: "nat \<Rightarrow> ip \<Rightarrow> nat \<Rightarrow> nat \<Rightarrow> nat \<Rightarrow> string option" where
  "append_to6 0 a zs ze i = None"
| "append_to6 (Suc f) a zs ze i =
     (if i < 8 then
        (if i = zs then
           (if 8 \<le> ze then Some ''::''
            else map_option (\<lambda>r. ''::'' @ append_hex (v6u16 a ze) @ r) (append_to6 f a zs ze (Suc ze)))
         else map_option (\<lambda>r. (if 0 < i then '':'' else []) @ append_hex (v6u16 a i) @ r)
                (append_to6 f a zs ze (Suc i)))
      else Some [])"

declare zero_run_end.simps [simp del] zero_run_scan.simps [simp del]

definition ip6_string :: "ip \<Rightarrow> string" where
  "ip6_string a =
     (case zero_run_scan a 0 (255, 255) of (zs, ze) \<Rightarrow>
        (case append_to6 9 a zs ze 0 of Some s \<Rightarrow> s | None \<Rightarrow> []))"

text \<open>\<open>hexString\<close>: two lower-case hex digits per byte.\<close>

definition hex_string :: "byte list \<Rightarrow> string" where
  "hex_string bs = concat (map (\<lambda>b. [hex_digits ! unat (drop_bit 4 b), hex_digits ! unat (b AND 0xf)]) bs)"

text \<open>\<open>IP.String\<close> and \<open>ipEmptyString\<close>, which \<open>TCPAddr.String\<close> prints the host with.\<close>

definition ip_string :: "ip \<Rightarrow> string" where
  "ip_string a =
     (if length a = 0 then ''<nil>''
      else if length a \<noteq> 4 \<and> length a \<noteq> 16 then CHR ''?'' # hex_string a
      else (case to4 a of Some a4 \<Rightarrow> ipv4_string a4 | None \<Rightarrow> ip6_string a))"

definition ip_empty_string :: "ip \<Rightarrow> string" where
  "ip_empty_string a = (if a = [] then [] else ip_string a)"

text \<open>The scan of \<open>net.InterfaceAddrs()\<close> in \<open>Start\<close>: the first \<open>*IPNet\<close> that is not
  a loopback address and has an IPv4 form gives \<open>hostIP\<close>; otherwise it stays \<open>""\<close>.\<close>

fun select_host_ip :: "iface_addr list \<Rightarrow> string" where
  "select_host_ip [] = []"
| "select_host_ip (IPNetAddr a netmask # rest) =
     (if \<not> is_loopback a then
        (case to4 a of Some a4 \<Rightarrow> ip_string a | None \<Rightarrow> select_host_ip rest)
      else select_host_ip rest)"
| "select_host_ip (OtherAddr # rest) = select_host_ip rest"

text \<open>\<open>bytealg.IndexByteString\<close> and \<open>LastIndexByteString\<close>; \<open>None\<close> is Go's \<open>-1\<close>.\<close>

fun index_of :: "char \<Rightarrow> string \<Rightarrow> nat option" where
  "index_of c [] = None"
| "index_of c (x # xs) = (if x = c then Some 0 else map_option Suc (index_of c xs))"

definition last_index_of :: "char \<Rightarrow> string \<Rightarrow> nat option" where
  "last_index_of c s = map_option (\<lambda>j. length s - 1 - j) (index_of c (rev s))"

text \<open>\<open>net.SplitHostPort\<close>.  After the bracket checks, \<open>j\<close> and \<open>k\<close> are the positions
  from which a stray \<open>'['\<close> or \<open>']'\<close> is an error.\<close>

definition split_host_port_tail ::
  "string \<Rightarrow> nat \<Rightarrow> string \<Rightarrow> nat \<Rightarrow> nat \<Rightarrow> addr_error + string \<times> string" where
  "split_host_port_tail hp i host j k =
     (if index_of CHR ''['' (drop j hp) \<noteq> None then Inl UnexpectedOpenBracket
      else if index_of CHR '']'' (drop k hp) \<noteq> None then Inl UnexpectedCloseBracket
      else Inr (host, drop (i + 1) hp))"

definition split_host_port :: "string \<Rightarrow> addr_error + string \<times> string" where
  "split_host_port hp =
     (case last_index_of CHR '':'' hp of
        None \<Rightarrow> Inl MissingPort
      | Some i \<Rightarrow>
          if hp ! 0 = CHR ''['' then
            (case index_of CHR '']'' hp of
               None \<Rightarrow> Inl MissingCloseBracket
             | Some e \<Rightarrow>
                 if e + 1 = length hp then Inl MissingPort
                 else if e + 1 = i then split_host_port_tail hp i (take (e - 1) (drop 1 hp)) 1 (e + 1)
                 else if hp ! (e + 1) = CHR '':'' then Inl TooManyColons
                 else Inl MissingPort)
          else
            (let host = take i hp in
             if index_of CHR '':'' host \<noteq> None then Inl TooManyColons
             else split_host_port_tail hp i host 0 0))"

definition join_host_port :: "string \<Rightarrow> string \<Rightarrow> string" where
  "join_host_port host port =
     (if index_of CHR '':'' host \<noteq> None then ''['' @ host @ '']:'' @ port
      else host @ '':'' @ port)"

text \<open>A \<open>*net.TCPAddr\<close> and its \<open>String\<close> method, which prints the host with
  \<open>ipEmptyString\<close> and the port with \<open>itoa.Itoa\<close>.\<close>

record tcp_addr =
  ta_ip :: ip
  ta_zone :: string
  ta_port :: go_int

definition tcp_addr_string :: "tcp_addr \<Rightarrow> string" where
  "tcp_addr_string a =
     (let ip = ip_empty_string (ta_ip a) in
      if ta_zone a \<noteq> [] then join_host_port (ip @ ''%'' @ ta_zone a) (itoa (ta_port a))
      else join_host_port ip (itoa (ta_port a)))"

text \<open>The specification of the host-address scan: the IPv4 forms of the non-loopback
  \<open>*IPNet\<close> addresses, in order.\<close>

definition host_ipv4 :: "iface_addr \<Rightarrow> ip option" where
  "host_ipv4 x = (case x of IPNetAddr a m \<Rightarrow> if is_loopback a then None else to4 a | OtherAddr \<Rightarrow> None)"

definition bracket_free :: "string \<Rightarrow> bool" where
  "bracket_free str \<longleftrightarrow> CHR ''['' \<notin> set str \<and> CHR '']'' \<notin> set str"

text \<open>The characters \<open>IP.String\<close> can print, and the shape of the zero run that
  \<open>appendTo6\<close> selects.\<close>

definition host_char :: "char \<Rightarrow> bool" where
  "host_char c \<longleftrightarrow> is_digit c \<or> c \<in> set ''abcdef.:?<nil>''"

definition valid_run :: "nat \<times> nat \<Rightarrow> bool" where
  "valid_run p \<longleftrightarrow> p = (255, 255) \<or> (fst p + 2 \<le> snd p \<and> snd p \<le> 8)"

declare to4_def [model_simps] ipv6_loopback_def [model_simps] is_loopback_def [model_simps]
  ipv4_string_def [model_simps] last_index_of_def [model_simps] split_host_port_tail_def [model_simps]
  split_host_port_def [model_simps] join_host_port_def [model_simps] tcp_addr_string_def [model_simps]
  hex_digits_def [model_simps] append_hex_def [model_simps] v6u16_def [model_simps]
  zero_run_end.simps [model_simps] zero_run_scan.simps [model_simps] ip6_string_def [model_simps]
  hex_string_def [model_simps] ip_string_def [model_simps] ip_empty_string_def [model_simps]

subsection \<open>Indices, SplitHostPort and JoinHostPort\<close>

lemma index_of_None [simp]: "index_of c xs = None \<longleftrightarrow> c \<notin> set xs"
  by (induction xs) auto

lemma index_of_append_hit: "c \<notin> set xs \<Longrightarrow> index_of c (xs @ c # ys) = Some (length xs)"
  by (induction xs) auto

lemma last_index_of_append_hit:
  "c \<notin> set ys \<Longrightarrow> last_index_of c (xs @ c # ys) = Some (length xs)"
proof -
  assume "c \<notin> set ys"
  then have "index_of c (rev ys @ c # rev xs) = Some (length ys)"
    using index_of_append_hit [of c "rev ys" "rev xs"] by simp
  then show ?thesis by (simp add: last_index_of_def)
qed

lemma split_join_host_port:
  assumes h: "CHR ''['' \<notin> set host" "CHR '']'' \<notin> set host"
    and p: "CHR '':'' \<notin> set port" "CHR ''['' \<notin> set port" "CHR '']'' \<notin> set port"
  shows "split_host_port (join_host_port host port) = Inr (host, port)"
proof (cases "CHR '':'' \<in> set host")
  case True
  let ?hp = "CHR ''['' # host @ CHR '']'' # CHR '':'' # port"
  have j: "join_host_port host port = ?hp" using True by (simp add: join_host_port_def)
  have li: "last_index_of CHR '':'' ?hp = Some (length host + 2)"
    using last_index_of_append_hit [of "CHR '':''" port "CHR ''['' # host @ [CHR '']'']"] p by simp
  have ei: "index_of CHR '']'' ?hp = Some (length host + 1)"
    using index_of_append_hit [of "CHR '']''" "CHR ''['' # host"] h by simp
  have tl: "split_host_port_tail ?hp (length host + 2) host 1 (length host + 2) = Inr (host, port)"
    using h p by (simp add: split_host_port_tail_def)
  show ?thesis using li ei tl by (simp add: j split_host_port_def)
next
  case False
  let ?hp = "host @ CHR '':'' # port"
  have j: "join_host_port host port = ?hp" using False by (simp add: join_host_port_def)
  have li: "last_index_of CHR '':'' ?hp = Some (length host)"
    using last_index_of_append_hit [of "CHR '':''" port host] p by simp
  have h0: "?hp ! 0 \<noteq> CHR ''[''" using h by (cases host) auto
  have tl: "split_host_port_tail ?hp (length host) host 0 0 = Inr (host, port)"
    using h p by (simp add: split_host_port_tail_def)
  show ?thesis using li h0 tl False by (simp add: j split_host_port_def Let_def)
qed


lemma itoa_no_brackets: "CHR '':'' \<notin> set (itoa v) \<and> bracket_free (itoa v)"
proof -
  have "\<not> is_digit CHR '':''" "\<not> is_digit CHR ''[''" "\<not> is_digit CHR '']''"
    by (simp_all add: is_digit_def)
  then show ?thesis
    by (auto simp: itoa_def uitoa_dec_string bracket_free_def dest: dec_string_nondigit)
qed

subsection \<open>IP.String\<close>

lemma hex_digits_host_char: "k < 16 \<Longrightarrow> host_char (hex_digits ! k)"
proof -
  assume k: "k < 16"
  have "list_all host_char hex_digits" by (simp add: hex_digits_def host_char_def is_digit_def)
  moreover have "length hex_digits = 16" by (simp add: hex_digits_def)
  ultimately show ?thesis using k by (simp add: list_all_length)
qed

lemma unat_and_15_word: "unat (x AND 0xf :: 'a::len word) < 16"
proof -
  have "x AND 0xf \<le> (0xf :: 'a word)" by (rule word_and_le1)
  then have "unat (x AND 0xf) \<le> unat (0xf :: 'a word)" by (simp add: word_le_nat_alt)
  moreover have "unat (0xf :: 'a word) \<le> 15" by simp
  ultimately show ?thesis by linarith
qed

lemma unat_drop_bit_16: "unat (drop_bit 12 (x :: 16 word)) < 16"
proof -
  have "unat x < 2 ^ 16" using unsigned_less [of x] by simp
  then show ?thesis by (simp add: drop_bit_eq_div unat_div div_less_iff_less_mult)
qed

lemma unat_drop_bit_byte: "unat (drop_bit 4 (x :: byte)) < 16"
proof -
  have "unat x < 2 ^ 8" using unsigned_less [of x] by simp
  then show ?thesis by (simp add: drop_bit_eq_div unat_div div_less_iff_less_mult)
qed

lemma append_hex_chars: "append_hex x \<noteq> [] \<and> list_all host_char (append_hex x)"
  using hex_digits_host_char [OF unat_drop_bit_16 [of x]]
    hex_digits_host_char [OF unat_and_15_word [of "drop_bit 8 x"]]
    hex_digits_host_char [OF unat_and_15_word [of "drop_bit 4 x"]]
    hex_digits_host_char [OF unat_and_15_word [of x]]
  by (simp add: append_hex_def)

lemma hex_string_chars: "list_all host_char (hex_string bs)"
proof -
  have "host_char (hex_digits ! unat (drop_bit 4 b))" "host_char (hex_digits ! unat (b AND 0xf))" for b :: byte
    by (rule hex_digits_host_char, rule unat_drop_bit_byte, rule hex_digits_host_char, rule unat_and_15_word)
  then show ?thesis by (induction bs) (simp_all add: hex_string_def)
qed

lemma host_char_colon: "host_char CHR '':''" and host_char_dot: "host_char CHR ''.''"
  by (simp_all add: host_char_def)

lemma append_to6_chars: "append_to6 f a zs ze i = Some s \<Longrightarrow> list_all host_char s"
proof (induction f arbitrary: i s)
  case 0
  then show ?case by simp
next
  case (Suc f)
  then show ?case using append_hex_chars host_char_colon
    by (auto split: if_splits simp: list_all_iff)
qed

lemma ipv4_string_chars: "list_all host_char (ipv4_string a4)"
proof -
  have d: "list_all host_char (dec_string n)" for n
    using dec_string_digits [of n] by (simp add: list_all_iff host_char_def)
  show ?thesis using d host_char_dot by (simp add: ipv4_string_def list_all_iff) blast
qed

lemma zero_run_end_bounds: "i \<le> 8 \<Longrightarrow> i \<le> zero_run_end a i \<and> zero_run_end a i \<le> 8"
proof (induction a i rule: zero_run_end.induct)
  case (1 a j)
  show ?case
  proof (cases "j < 8 \<and> v6u16 a j = 0")
    case True
    then have "zero_run_end a j = zero_run_end a (Suc j)" by (simp add: zero_run_end.simps)
    then show ?thesis using "1.IH" [OF True] True by simp
  next
    case False
    then have "zero_run_end a j = j" by (simp add: zero_run_end.simps)
    then show ?thesis using "1.prems" by simp
  qed
qed

lemma zero_run_scan_valid: "valid_run p \<Longrightarrow> valid_run (zero_run_scan a i p)"
proof (induction a i p rule: zero_run_scan.induct)
  case (1 a i zs ze)
  show ?case
  proof (cases "i < 8")
    case True
    let ?j = "zero_run_end a i"
    have "?j \<le> 8" using zero_run_end_bounds [of i a] True by simp
    then have "valid_run (if 2 \<le> ?j - i \<and> ze - zs < ?j - i then (i, ?j) else (zs, ze))"
      using "1.prems" by (auto simp: valid_run_def)
    then show ?thesis using "1.IH" [OF True refl refl] True by (simp add: Let_def zero_run_scan.simps)
  next
    case False
    then show ?thesis using "1.prems" by (simp add: zero_run_scan.simps)
  qed
qed

lemma append_to6_Some:
  "valid_run (zs, ze) \<Longrightarrow> i \<le> 8 \<Longrightarrow> 9 - i \<le> f \<Longrightarrow>
   \<exists>s. append_to6 f a zs ze i = Some s \<and> (i < 8 \<longrightarrow> s \<noteq> [])"
proof (induction f arbitrary: i)
  case 0
  then show ?case by simp
next
  case (Suc f)
  show ?case
  proof (cases "i < 8")
    case i8: True
    show ?thesis
    proof (cases "i = zs")
      case True
      then have ze: "i + 2 \<le> ze" using Suc.prems(1) i8 by (auto simp: valid_run_def)
      show ?thesis
      proof (cases "8 \<le> ze")
        case False
        have "Suc ze \<le> 8" "9 - Suc ze \<le> f" using False ze Suc.prems(3) by arith+
        then obtain r where "append_to6 f a zs ze (Suc ze) = Some r"
          using Suc.IH [OF Suc.prems(1)] by blast
        then show ?thesis using True i8 False by simp
      qed (use True i8 in simp)
    next
      case False
      have "Suc i \<le> 8" "9 - Suc i \<le> f" using i8 Suc.prems(3) by arith+
      then obtain r where "append_to6 f a zs ze (Suc i) = Some r"
        using Suc.IH [OF Suc.prems(1)] by blast
      then show ?thesis using False i8 append_hex_chars [of "v6u16 a i"] by simp
    qed
  qed simp
qed

lemma to4_length: "to4 a = Some a4 \<Longrightarrow> length a4 = 4"
  by (auto simp: to4_def split: if_splits)

lemma ip6_string_run: "case zero_run_scan a 0 (255, 255) of (zs, ze) \<Rightarrow>
    \<exists>s. append_to6 9 a zs ze 0 = Some s \<and> s \<noteq> []"
proof -
  obtain zs ze where p: "zero_run_scan a 0 (255, 255) = (zs, ze)" by (cases "zero_run_scan a 0 (255, 255)")
  have "valid_run (zs, ze)" using zero_run_scan_valid [of "(255, 255)" a 0] p by (simp add: valid_run_def)
  then show ?thesis using append_to6_Some [of zs ze 0 9 a] p by simp
qed

lemma ip_string_to4: "to4 a = Some a4 \<Longrightarrow> ip_string a = ipv4_string a4"
  by (auto simp: to4_def ip_string_def split: if_splits)

lemma ip6_string_ok: "ip6_string a \<noteq> [] \<and> list_all host_char (ip6_string a)"
proof -
  obtain zs ze where p: "zero_run_scan a 0 (255, 255) = (zs, ze)" by (cases "zero_run_scan a 0 (255, 255)")
  then obtain s where "append_to6 9 a zs ze 0 = Some s" "s \<noteq> []" using ip6_string_run [of a] by auto
  then show ?thesis using append_to6_chars [of 9 a zs ze 0 s] p by (simp add: ip6_string_def)
qed

lemma ip_string_chars: "list_all host_char (ip_string a)"
proof -
  have "list_all host_char ''<nil>''" "host_char CHR ''?''" by (simp_all add: host_char_def)
  then show ?thesis using hex_string_chars [of a] ip6_string_ok [of a] ipv4_string_chars
    by (auto simp: ip_string_def split: option.split)
qed

lemma ip_empty_string_bracket_free:
  "bracket_free (ip_empty_string a) \<and> CHR ''%'' \<notin> set (ip_empty_string a)"
proof -
  have "list_all host_char (ip_empty_string a)" using ip_string_chars [of a] by (simp add: ip_empty_string_def)
  moreover have "\<not> host_char CHR ''[''" "\<not> host_char CHR '']''" "\<not> host_char CHR ''%''"
    by (simp_all add: host_char_def is_digit_def)
  ultimately show ?thesis by (auto simp: bracket_free_def list_all_iff)
qed

lemma split_tcp_addr_string:
  assumes "bracket_free (ta_zone a)"
  shows "split_host_port (tcp_addr_string a) =
           Inr (if ta_zone a = [] then ip_empty_string (ta_ip a)
                else ip_empty_string (ta_ip a) @ ''%'' @ ta_zone a, itoa (ta_port a))"
  using assms itoa_no_brackets [of "ta_port a"] ip_empty_string_bracket_free [of "ta_ip a"]
    split_join_host_port [of "ip_empty_string (ta_ip a)" "itoa (ta_port a)"]
    split_join_host_port [of "ip_empty_string (ta_ip a) @ ''%'' @ ta_zone a" "itoa (ta_port a)"]
  by (auto simp: tcp_addr_string_def bracket_free_def Let_def)


subsection \<open>Properties of the address helpers\<close>

text \<open>C27: the host-address scan of \<open>Start\<close> returns the dotted quad of the first
  non-loopback interface address that has an IPv4 form, and the empty string when there
  is none.\<close>

theorem select_host_ip_spec:
  "select_host_ip addrs =
     (case List.map_filter host_ipv4 addrs of [] \<Rightarrow> [] | a4 # _ \<Rightarrow> ipv4_string a4)"
  by (induction addrs rule: select_host_ip.induct)
     (auto simp: host_ipv4_def ip_string_to4 split: option.splits list.splits)



text \<open>C28: \<open>IP.String\<close> prints every address, of any length, as a non-empty string of
  decimal digits, lower-case hex digits, \<open>'.'\<close>, \<open>':'\<close> and the characters of its
  error forms \<open>"?"\<close> and \<open>"<nil>"\<close>: never a bracket or a \<open>'%'\<close>, so
  \<open>TCPAddr.String\<close>'s host can always be split back by \<open>SplitHostPort\<close>.\<close>

theorem ip_string_alphabet: "ip_string a \<noteq> [] \<and> list_all host_char (ip_string a)"
proof -
  have "ipv4_string a4 \<noteq> []" if "length a4 = 4" for a4
    using that dec_string_nonempty by (cases a4) (simp_all add: ipv4_string_def)
  then have "ip_string a \<noteq> []"
    using ip6_string_ok [of a] by (auto simp: ip_string_def split: option.split dest: to4_length)
  then show ?thesis using ip_string_chars [of a] by simp
qed

lemma ip6_string_example:
  "ip6_string [32, 1, 13, 184, 0, 0, 0, 0, 0, 0, 0, 0, 0, 0, 0, 1] = ''2001:db8::1''"
  by code_simp

end
