(* ===== verification/Tunnel.thy ===== *)
theory Tunnel
  imports GoNet
begin

text \<open>
  The \<open>TunnelServer\<close> struct of \<open>src/main.go\<close> (lines 15--27) and its sequential
  operations.  The struct's \<open>sync.WaitGroup\<close> is its counter \<open>wg_count\<close> and its
  \<open>stopChan\<close> is the flag \<open>stop_closed\<close> (a channel that is only ever closed, never
  sent on).  \<open>Start\<close> (lines 29--65) is a function of the results of the calls it makes
  (\<open>net.InterfaceAddrs\<close>, \<open>net.Listen\<close>), collected in a \<open>start_env\<close>; its last
  statement, \<open>go ts.acceptConnections(...)\<close>, is the step of the system model in
  theory \<open>System\<close> that starts the accept loop.  The Go runtime panics the model can
  reach are values of \<open>go_panic\<close>: \<open>close\<close> of a closed channel and a negative
  WaitGroup counter.  \<open>main\<close>'s argument parsing (lines 122--129) is
  \<open>parse_local_port\<close>.
\<close>

record tunnel_server =
  local_port :: go_int
  public_port :: go_int
  wg_count :: int
  stop_closed :: bool

datatype go_panic = PanicCloseOfClosedChannel | PanicNegativeWaitGroupCounter

datatype start_error = ErrInterfaces | ErrListen | ErrParseAddr addr_error

text \<open>What the calls of \<open>Start\<close> return: \<open>None\<close> is the call's error.\<close>

record start_env =
  env_ifaces :: "iface_addr list option"
  env_listen :: "tcp_addr option"

definition new_tunnel_server :: "go_int \<Rightarrow> tunnel_server" where
  "new_tunnel_server lp = \<lparr>local_port = lp, public_port = 0, wg_count = 0, stop_closed = False\<rparr>"

text \<open>\<open>Start\<close> up to the \<open>go\<close> statement: on success the updated struct (with
  \<open>publicPort\<close> set, the \<open>Atoi\<close> error ignored as the code ignores it) and the
  \<open>hostIP\<close> of the banner.\<close>

definition start :: "tunnel_server \<Rightarrow> start_env \<Rightarrow> start_error + tunnel_server \<times> string" where
  "start ts env =
     (case env_ifaces env of
        None \<Rightarrow> Inl ErrInterfaces
      | Some addrs \<Rightarrow>
          (let hostIP = select_host_ip addrs in
           case env_listen env of
             None \<Rightarrow> Inl ErrListen
           | Some a \<Rightarrow>
               (case split_host_port (tcp_addr_string a) of
                  Inl e \<Rightarrow> Inl (ErrParseAddr e)
                | Inr (_, portStr) \<Rightarrow> Inr (ts\<lparr>public_port := fst (atoi portStr)\<rparr>, hostIP))))"

text \<open>\<open>wg.Add(delta)\<close> (so \<open>wg.Done()\<close> is \<open>wg_add (-1)\<close>): a counter that would go
  negative is a panic.\<close>

definition wg_add :: "int \<Rightarrow> tunnel_server \<Rightarrow> go_panic + tunnel_server" where
  "wg_add delta ts =
     (if wg_count ts + delta < 0 then Inl PanicNegativeWaitGroupCounter
      else Inr (ts\<lparr>wg_count := wg_count ts + delta\<rparr>))"

text \<open>\<open>close(ts.stopChan)\<close>, the first statement of \<open>Stop\<close> (line 116).\<close>

definition close_stop :: "tunnel_server \<Rightarrow> go_panic + tunnel_server" where
  "close_stop ts =
     (if stop_closed ts then Inl PanicCloseOfClosedChannel else Inr (ts\<lparr>stop_closed := True\<rparr>))"

definition default_local_port :: go_int where
  "default_local_port = 3000"

definition parse_local_port :: "string list \<Rightarrow> go_int" where
  "parse_local_port args =
     (if length args > 1 then
        (case atoi (args ! 1) of (port, None) \<Rightarrow> port | (_, Some _) \<Rightarrow> default_local_port)
      else default_local_port)"

declare new_tunnel_server_def [model_simps] start_def [model_simps] wg_add_def [model_simps]
  close_stop_def [model_simps] default_local_port_def [model_simps] parse_local_port_def [model_simps]


subsection \<open>Properties of Start and of the argument parsing\<close>

lemma start_Inr:
  assumes "env_ifaces env = Some addrs" and "env_listen env = Some a" and "bracket_free (ta_zone a)"
  shows "start ts env = Inr (ts\<lparr>public_port := ta_port a\<rparr>, select_host_ip addrs)"
proof -
  have "split_host_port (tcp_addr_string a) =
      Inr (if ta_zone a = [] then ip_empty_string (ta_ip a) else ip_empty_string (ta_ip a) @ ''%'' @ ta_zone a,
           itoa (ta_port a))"
    using assms(3) by (rule split_tcp_addr_string)
  then show ?thesis using assms(1,2) by (simp add: start_def Let_def atoi_itoa)
qed

text \<open>C19: \<open>Start\<close> fails exactly when \<open>net.InterfaceAddrs\<close> fails (checked first) or
  \<open>net.Listen\<close> fails; otherwise, whatever address the listener is bound to, it records
  as \<open>publicPort\<close> the port the system assigned, recovered through \<open>TCPAddr.String\<close>,
  \<open>SplitHostPort\<close> and \<open>Atoi\<close>, and reports the first non-loopback IPv4 address as
  \<open>hostIP\<close>.  The only condition is on the listener's zone, an interface name.\<close>

theorem start_outcome:
  assumes "\<forall>a. env_listen env = Some a \<longrightarrow> bracket_free (ta_zone a)"
  shows "start ts env =
    (case env_ifaces env of
       None \<Rightarrow> Inl ErrInterfaces
     | Some addrs \<Rightarrow>
         (case env_listen env of
            None \<Rightarrow> Inl ErrListen
          | Some a \<Rightarrow> Inr (ts\<lparr>public_port := ta_port a\<rparr>, select_host_ip addrs)))"
proof (cases "env_ifaces env")
  case None
  then show ?thesis by (simp add: start_def)
next
  case (Some addrs)
  show ?thesis
  proof (cases "env_listen env")
    case None
    with Some show ?thesis by (simp add: start_def Let_def)
  next
    case (Some a)
    then have "bracket_free (ta_zone a)" using assms by simp
    with Some \<open>env_ifaces env = Some addrs\<close> show ?thesis using start_Inr [of env addrs a ts] by simp
  qed
qed

theorem start_outcome_witness:
  "bracket_free [] \<and>
   start (new_tunnel_server 3000)
     \<lparr>env_ifaces = Some [IPNetAddr [127, 0, 0, 1] [255, 0, 0, 0], IPNetAddr [192, 168, 1, 20] [255, 255, 255, 0]],
      env_listen = Some \<lparr>ta_ip = replicate 16 0, ta_zone = [], ta_port = 40000\<rparr>\<rparr> =
   Inr ((new_tunnel_server 3000)\<lparr>public_port := 40000\<rparr>, ''192.168.1.20'')"
proof -
  let ?e = "\<lparr>env_ifaces = Some [IPNetAddr [127, 0, 0, 1] [255, 0, 0, 0], IPNetAddr [192, 168, 1, 20] [255, 255, 255, 0]],
      env_listen = Some \<lparr>ta_ip = replicate 16 (0::byte), ta_zone = [], ta_port = (40000::go_int)\<rparr>\<rparr>"
  have h: "\<forall>a. env_listen ?e = Some a \<longrightarrow> bracket_free (ta_zone a)"
    by (simp add: bracket_free_def)
  have "select_host_ip [IPNetAddr [127, 0, 0, 1] [255, 0, 0, 0], IPNetAddr [192, 168, 1, 20] [255, 255, 255, 0]]
        = ''192.168.1.20''"
    by (simp add: model_simps dec_string.simps digit_char_def)
  then show ?thesis using start_outcome [OF h, of "new_tunnel_server 3000"]
    by (simp add: bracket_free_def)
qed

text \<open>C20: \<open>main\<close> takes any 64-bit integer it can parse as the local port, with no
  range check: the argument \<open>Itoa(v)\<close> gives local port \<open>v\<close> for every \<open>v\<close>, negative
  values and values above 65535 included.\<close>

theorem parse_local_port_any_int: "parse_local_port [prog, itoa v] = v"
  by (simp add: parse_local_port_def atoi_itoa)

text \<open>C21: without an argument, or when \<open>Atoi\<close> rejects it, \<open>main\<close> silently uses the
  default local port 3000.\<close>

theorem parse_local_port_default:
  "parse_local_port [prog] = 3000 \<and>
   (snd (atoi arg) \<noteq> None \<longrightarrow> parse_local_port (prog # arg # rest) = 3000)"
  by (auto simp: parse_local_port_def default_local_port_def split: prod.splits)

theorem parse_local_port_default_witness:
  "parse_local_port [''tunnel''] = 3000 \<and> snd (atoi ''http'') \<noteq> None \<and>
   parse_local_port [''tunnel'', ''http''] = 3000"
proof -
  have e: "snd (atoi ''http'') \<noteq> None" by (simp add: model_simps)
  show ?thesis using parse_local_port_default [of "''tunnel''" "''http''" "[]"] e by simp
qed

end
