(* ===== verification/System.thy ===== *)
theory System
  imports Tunnel
begin

text \<open>
  The running process of \<open>src/main.go\<close> as an interleaving of its goroutines over the
  shared \<open>TunnelServer\<close>.  One step is one atomic action of one goroutine:
  \<^item> \<open>main\<close> (lines 121--144): \<open>Start\<close> succeeds or \<open>log.Fatalf\<close> exits; on a signal,
    \<open>Stop\<close> closes \<open>stopChan\<close> and then waits until the WaitGroup counter is zero;
    \<open>main\<close> returning ends the process;
  \<^item> the accept loop \<open>acceptConnections\<close> (lines 66--84), at its program points
    \<open>accept_pc\<close>: the \<open>select\<close>, the blocking \<open>Accept\<close>, after \<open>Accept\<close> returned a
    connection, after \<open>connections.Add(1)\<close>; \<open>go handleConnection\<close> appends a worker;
  \<^item> each relay worker \<open>handleConnection\<close> (lines 86--113) at \<open>worker_pc\<close>: dialling
    the local service, relaying until the first copy result arrives on \<open>errChan\<close>,
    returning; its pending \<open>defer\<close> calls are the stack \<open>w_defers\<close> (head = top),
    run one per step after it returns;
  \<^item> a public peer whose connect completes in the kernel's accept backlog while the
    listener is open.
  The WaitGroup is its counter \<open>wg_count\<close>, with \<open>Add\<close> and \<open>Done\<close> one atomic step
  each and \<open>Wait\<close> a guard; the runtime's own steps and the two misuse panics they can
  raise are modelled in theory \<open>WaitGroup\<close>.
  A Go panic (\<open>crash\<close>) or the end of \<open>main\<close> stops every goroutine.  The bytes
  the two copy goroutines of a relay move are not modelled; the first result on
  \<open>errChan\<close>, which ends the relay, is one step.
\<close>

datatype listener_state = LNone | LOpen | LClosed

datatype accept_pc = ANotStarted | ASelect | AAccept | AGot | AAdded | AExited

datatype defer_call = DCloseLocal | DClosePublic | DDone

datatype worker_pc = WDial | WCopy | WReturn

record worker =
  w_pc :: worker_pc
  w_defers :: "defer_call list"
  w_public_open :: bool
  w_local_open :: bool

datatype main_pc = MInit | MRunning | MStopWait | MExited | MFatal

record sys =
  srv :: tunnel_server
  lis :: listener_state
  backlog :: nat
  acc :: accept_pc
  workers :: "worker list"
  mpc :: main_pc
  crash :: "go_panic option"

text \<open>A worker as \<open>go ts.handleConnection(publicConn)\<close> starts it: the two
  \<open>defer\<close> statements of lines 87--88 have pushed \<open>Done\<close> and then \<open>publicConn.Close\<close>.\<close>

definition new_worker :: worker where
  "new_worker = \<lparr>w_pc = WDial, w_defers = [DClosePublic, DDone],
                 w_public_open = True, w_local_open = False\<rparr>"

definition init_sys :: "go_int \<Rightarrow> sys" where
  "init_sys lp = \<lparr>srv = new_tunnel_server lp, lis = LNone, backlog = 0, acc = ANotStarted,
                  workers = [], mpc = MInit, crash = None\<rparr>"

definition alive :: "sys \<Rightarrow> bool" where
  "alive s \<longleftrightarrow> crash s = None \<and> mpc s \<noteq> MExited \<and> mpc s \<noteq> MFatal"

text \<open>One deferred call of \<open>handleConnection\<close>.\<close>

fun run_defer :: "defer_call \<Rightarrow> worker \<Rightarrow> tunnel_server \<Rightarrow> go_panic + worker \<times> tunnel_server" where
  "run_defer DCloseLocal w ts = Inr (w\<lparr>w_local_open := False\<rparr>, ts)"
| "run_defer DClosePublic w ts = Inr (w\<lparr>w_public_open := False\<rparr>, ts)"
| "run_defer DDone w ts = (case wg_add (-1) ts of Inl p \<Rightarrow> Inl p | Inr ts' \<Rightarrow> Inr (w, ts'))"

definition set_worker :: "sys \<Rightarrow> nat \<Rightarrow> worker \<Rightarrow> sys" where
  "set_worker s i w = s\<lparr>workers := (workers s)[i := w]\<rparr>"

inductive step :: "sys \<Rightarrow> sys \<Rightarrow> bool" where
  main_start:
    "mpc s = MInit \<Longrightarrow> alive s \<Longrightarrow> start (srv s) env = Inr (ts', hostIP) \<Longrightarrow>
     step s (s\<lparr>srv := ts', lis := LOpen, acc := ASelect, mpc := MRunning\<rparr>)"
| main_start_fatal:
    "mpc s = MInit \<Longrightarrow> alive s \<Longrightarrow> start (srv s) env = Inl e \<Longrightarrow> step s (s\<lparr>mpc := MFatal\<rparr>)"
| main_stop_close:
    "mpc s = MRunning \<Longrightarrow> alive s \<Longrightarrow> close_stop (srv s) = Inr ts' \<Longrightarrow>
     step s (s\<lparr>srv := ts', mpc := MStopWait\<rparr>)"
| main_stop_panic:
    "mpc s = MRunning \<Longrightarrow> alive s \<Longrightarrow> close_stop (srv s) = Inl p \<Longrightarrow> step s (s\<lparr>crash := Some p\<rparr>)"
| main_wait_done:
    "mpc s = MStopWait \<Longrightarrow> alive s \<Longrightarrow> wg_count (srv s) = 0 \<Longrightarrow> step s (s\<lparr>mpc := MExited\<rparr>)"
| peer_connect:
    "lis s = LOpen \<Longrightarrow> alive s \<Longrightarrow> step s (s\<lparr>backlog := Suc (backlog s)\<rparr>)"
| accept_stop:
    "acc s = ASelect \<Longrightarrow> alive s \<Longrightarrow> stop_closed (srv s) \<Longrightarrow>
     step s (s\<lparr>lis := LClosed, backlog := 0, acc := AExited\<rparr>)"
| accept_default:
    "acc s = ASelect \<Longrightarrow> alive s \<Longrightarrow> \<not> stop_closed (srv s) \<Longrightarrow> step s (s\<lparr>acc := AAccept\<rparr>)"
| accept_ok:
    "acc s = AAccept \<Longrightarrow> alive s \<Longrightarrow> lis s = LOpen \<Longrightarrow> 0 < backlog s \<Longrightarrow>
     step s (s\<lparr>backlog := backlog s - 1, acc := AGot\<rparr>)"
| accept_error:
    "acc s = AAccept \<Longrightarrow> alive s \<Longrightarrow> step s (s\<lparr>acc := ASelect\<rparr>)"
| accept_add:
    "acc s = AGot \<Longrightarrow> alive s \<Longrightarrow> wg_add 1 (srv s) = Inr ts' \<Longrightarrow> step s (s\<lparr>srv := ts', acc := AAdded\<rparr>)"
| accept_add_panic:
    "acc s = AGot \<Longrightarrow> alive s \<Longrightarrow> wg_add 1 (srv s) = Inl p \<Longrightarrow> step s (s\<lparr>crash := Some p\<rparr>)"
| accept_go:
    "acc s = AAdded \<Longrightarrow> alive s \<Longrightarrow>
     step s (s\<lparr>workers := workers s @ [new_worker], acc := ASelect\<rparr>)"
| worker_dial_fail:
    "i < length (workers s) \<Longrightarrow> w_pc (workers s ! i) = WDial \<Longrightarrow> alive s \<Longrightarrow>
     step s (set_worker s i ((workers s ! i)\<lparr>w_pc := WReturn\<rparr>))"
| worker_dial_ok:
    "i < length (workers s) \<Longrightarrow> w_pc (workers s ! i) = WDial \<Longrightarrow> alive s \<Longrightarrow>
     step s (set_worker s i ((workers s ! i)\<lparr>w_pc := WCopy,
               w_defers := DCloseLocal # w_defers (workers s ! i), w_local_open := True\<rparr>))"
| worker_copy_done:
    "i < length (workers s) \<Longrightarrow> w_pc (workers s ! i) = WCopy \<Longrightarrow> alive s \<Longrightarrow>
     step s (set_worker s i ((workers s ! i)\<lparr>w_pc := WReturn\<rparr>))"
| worker_defer:
    "i < length (workers s) \<Longrightarrow> w_pc (workers s ! i) = WReturn \<Longrightarrow> alive s \<Longrightarrow>
     w_defers (workers s ! i) = d # ds \<Longrightarrow>
     run_defer d ((workers s ! i)\<lparr>w_defers := ds\<rparr>) (srv s) = Inr (w', ts') \<Longrightarrow>
     step s ((set_worker s i w')\<lparr>srv := ts'\<rparr>)"
| worker_defer_panic:
    "i < length (workers s) \<Longrightarrow> w_pc (workers s ! i) = WReturn \<Longrightarrow> alive s \<Longrightarrow>
     w_defers (workers s ! i) = d # ds \<Longrightarrow>
     run_defer d ((workers s ! i)\<lparr>w_defers := ds\<rparr>) (srv s) = Inl p \<Longrightarrow>
     step s (s\<lparr>crash := Some p\<rparr>)"

inductive reach :: "go_int \<Rightarrow> sys \<Rightarrow> bool" where
  reach_init: "reach lp (init_sys lp)"
| reach_step: "reach lp s \<Longrightarrow> step s t \<Longrightarrow> reach lp t"

declare new_worker_def [model_simps] init_sys_def [model_simps] alive_def [model_simps]
  set_worker_def [model_simps]

definition worker_ok :: "worker \<Rightarrow> bool" where
  "worker_ok w \<longleftrightarrow>
     (case w_pc w of
        WDial \<Rightarrow> w_defers w = [DClosePublic, DDone]
      | WCopy \<Rightarrow> w_defers w = [DCloseLocal, DClosePublic, DDone]
      | WReturn \<Rightarrow> w_defers w \<in> {[DCloseLocal, DClosePublic, DDone], [DClosePublic, DDone], [DDone], []})
     \<and> (w_local_open w \<longleftrightarrow> DCloseLocal \<in> set (w_defers w))
     \<and> (w_public_open w \<longleftrightarrow> DClosePublic \<in> set (w_defers w))"

definition live :: "worker \<Rightarrow> bool" where
  "live w \<longleftrightarrow> DDone \<in> set (w_defers w)"

definition live_count :: "worker list \<Rightarrow> nat" where
  "live_count ws = length (filter live ws)"

definition pending_add :: "accept_pc \<Rightarrow> int" where
  "pending_add a = (if a = AAdded then 1 else 0)"

definition sys_inv :: "sys \<Rightarrow> bool" where
  "sys_inv s \<longleftrightarrow>
     wg_count (srv s) = int (live_count (workers s)) + pending_add (acc s)
   \<and> list_all worker_ok (workers s)
   \<and> (lis s = LNone \<longleftrightarrow> acc s = ANotStarted)
   \<and> (lis s = LClosed \<longleftrightarrow> acc s = AExited)
   \<and> (lis s \<noteq> LOpen \<longrightarrow> backlog s = 0)
   \<and> (acc s = ANotStarted \<longleftrightarrow> mpc s = MInit \<or> mpc s = MFatal)
   \<and> (acc s = ANotStarted \<longrightarrow> workers s = [])
   \<and> (stop_closed (srv s) \<longleftrightarrow> mpc s = MStopWait \<or> mpc s = MExited)
   \<and> (mpc s = MExited \<longrightarrow> wg_count (srv s) = 0)
   \<and> crash s = None"

definition spawn_budget :: "accept_pc \<Rightarrow> nat" where
  "spawn_budget a = (if a = AAccept \<or> a = AGot \<or> a = AAdded then 1 else 0)"

subsection \<open>The invariant of the running process\<close>

lemma live_count_update:
  "i < length ws \<Longrightarrow>
   int (live_count (ws[i := w])) = int (live_count ws) - of_bool (live (ws ! i)) + of_bool (live w)"
proof (induction ws arbitrary: i)
  case Nil
  then show ?case by simp
next
  case (Cons v ws)
  then show ?case by (cases i) (auto simp: live_count_def)
qed

lemma live_count_snoc: "live_count (ws @ [w]) = live_count ws + of_bool (live w)"
  by (simp add: live_count_def)

lemma list_all_update: "list_all P xs \<Longrightarrow> P x \<Longrightarrow> list_all P (xs[i := x])"
  by (induction xs arbitrary: i) (auto split: nat.splits)

lemma start_keeps: "start ts env = Inr (ts', h) \<Longrightarrow>
   wg_count ts' = wg_count ts \<and> stop_closed ts' = stop_closed ts \<and> local_port ts' = local_port ts"
  by (auto simp: start_def Let_def split: option.splits sum.splits prod.splits)

lemma close_stop_Inr: "close_stop ts = Inr ts' \<longleftrightarrow> \<not> stop_closed ts \<and> ts' = ts\<lparr>stop_closed := True\<rparr>"
  by (auto simp: close_stop_def)

lemma wg_add_Inr: "wg_add d ts = Inr ts' \<longleftrightarrow> 0 \<le> wg_count ts + d \<and> ts' = ts\<lparr>wg_count := wg_count ts + d\<rparr>"
  by (auto simp: wg_add_def)

lemma wg_add_Inl: "wg_add d ts = Inl p \<longleftrightarrow> wg_count ts + d < 0 \<and> p = PanicNegativeWaitGroupCounter"
  by (auto simp: wg_add_def)

lemma new_worker_ok: "worker_ok new_worker \<and> live new_worker"
  by (simp add: new_worker_def worker_ok_def live_def)

lemma init_sys_inv: "sys_inv (init_sys lp)"
  by (simp add: init_sys_def sys_inv_def new_tunnel_server_def live_count_def pending_add_def)

lemma worker_ok_nth: "list_all worker_ok ws \<Longrightarrow> i < length ws \<Longrightarrow> worker_ok (ws ! i)"
  by (simp add: list_all_length)

lemma dial_fail_ok:
  "worker_ok w \<Longrightarrow> w_pc w = WDial \<Longrightarrow> worker_ok (w\<lparr>w_pc := WReturn\<rparr>) \<and> live (w\<lparr>w_pc := WReturn\<rparr>) = live w"
  by (simp add: worker_ok_def live_def)

lemma dial_ok_ok:
  "worker_ok w \<Longrightarrow> w_pc w = WDial \<Longrightarrow>
   worker_ok (w\<lparr>w_pc := WCopy, w_defers := DCloseLocal # w_defers w, w_local_open := True\<rparr>) \<and>
   live (w\<lparr>w_pc := WCopy, w_defers := DCloseLocal # w_defers w, w_local_open := True\<rparr>) = live w"
  by (simp add: worker_ok_def live_def)

lemma copy_done_ok:
  "worker_ok w \<Longrightarrow> w_pc w = WCopy \<Longrightarrow> worker_ok (w\<lparr>w_pc := WReturn\<rparr>) \<and> live (w\<lparr>w_pc := WReturn\<rparr>) = live w"
  by (simp add: worker_ok_def live_def)

lemma defer_ok:
  assumes "worker_ok w" "w_pc w = WReturn" "w_defers w = d # ds"
    and "run_defer d (w\<lparr>w_defers := ds\<rparr>) ts = Inr (w', ts')"
  shows "worker_ok w' \<and> live w \<and>
         (if d = DDone then \<not> live w' \<and> ts' = ts\<lparr>wg_count := wg_count ts - 1\<rparr>
          else live w' \<and> ts' = ts)"
  using assms by (cases d) (auto simp: worker_ok_def live_def wg_add_Inr split: sum.splits)

lemma defer_panic:
  assumes "worker_ok w" "w_pc w = WReturn" "w_defers w = d # ds"
    and "run_defer d (w\<lparr>w_defers := ds\<rparr>) ts = Inl p"
  shows "live w \<and> wg_count ts < 1"
  using assms by (cases d) (auto simp: worker_ok_def live_def wg_add_Inl split: sum.splits)

lemma live_count_pos: "live (ws ! i) \<Longrightarrow> i < length ws \<Longrightarrow> 0 < live_count ws"
  by (auto simp: live_count_def filter_empty_conv dest: nth_mem)

lemma step_inv: "step s t \<Longrightarrow> sys_inv s \<Longrightarrow> sys_inv t"
proof (induction rule: step.induct)
  case (main_start s env ts' hostIP)
  then show ?case using start_keeps [OF main_start.hyps(3)] by (auto simp: sys_inv_def pending_add_def)
next
  case (main_start_fatal s env e)
  then show ?case by (auto simp: sys_inv_def)
next
  case (main_stop_close s ts')
  then show ?case by (auto simp: sys_inv_def close_stop_Inr)
next
  case (main_stop_panic s p)
  then show ?case by (auto simp: sys_inv_def close_stop_def)
next
  case (main_wait_done s)
  then show ?case by (auto simp: sys_inv_def)
next
  case (peer_connect s)
  then show ?case by (auto simp: sys_inv_def)
next
  case (accept_stop s)
  then show ?case by (auto simp: sys_inv_def pending_add_def)
next
  case (accept_default s)
  then show ?case by (auto simp: sys_inv_def pending_add_def)
next
  case (accept_ok s)
  then show ?case by (auto simp: sys_inv_def pending_add_def)
next
  case (accept_error s)
  then show ?case by (auto simp: sys_inv_def pending_add_def)
next
  case (accept_add s ts')
  then show ?case by (auto simp: sys_inv_def pending_add_def wg_add_Inr alive_def)
next
  case (accept_add_panic s p)
  then show ?case by (auto simp: sys_inv_def pending_add_def wg_add_Inl)
next
  case (accept_go s)
  then show ?case using new_worker_ok by (auto simp: sys_inv_def pending_add_def live_count_snoc)
next
  case (worker_dial_fail i s)
  let ?w = "workers s ! i"
  have ok: "worker_ok ?w" using worker_dial_fail by (auto simp: sys_inv_def worker_ok_nth)
  from dial_fail_ok [OF ok worker_dial_fail.hyps(2)] worker_dial_fail show ?case
    by (auto simp: sys_inv_def set_worker_def live_count_update list_all_update)
next
  case (worker_dial_ok i s)
  let ?w = "workers s ! i"
  have ok: "worker_ok ?w" using worker_dial_ok by (auto simp: sys_inv_def worker_ok_nth)
  from dial_ok_ok [OF ok worker_dial_ok.hyps(2)] worker_dial_ok show ?case
    by (auto simp: sys_inv_def set_worker_def live_count_update list_all_update)
next
  case (worker_copy_done i s)
  let ?w = "workers s ! i"
  have ok: "worker_ok ?w" using worker_copy_done by (auto simp: sys_inv_def worker_ok_nth)
  from copy_done_ok [OF ok worker_copy_done.hyps(2)] worker_copy_done show ?case
    by (auto simp: sys_inv_def set_worker_def live_count_update list_all_update)
next
  case (worker_defer i s d ds w' ts')
  let ?w = "workers s ! i"
  have ok: "worker_ok ?w" using worker_defer by (auto simp: sys_inv_def worker_ok_nth)
  have d: "worker_ok w' \<and> live ?w \<and>
         (if d = DDone then \<not> live w' \<and> ts' = (srv s)\<lparr>wg_count := wg_count (srv s) - 1\<rparr>
          else live w' \<and> ts' = srv s)"
    using defer_ok [OF ok worker_defer.hyps(2,4,5)] .
  have ts: "stop_closed ts' = stop_closed (srv s)"
    using d by (cases "d = DDone") auto
  have "int (live_count ((workers s)[i := w'])) = int (live_count (workers s)) - of_bool (live ?w) + of_bool (live w')"
    using worker_defer.hyps(1) by (rule live_count_update)
  with d ts worker_defer show ?case
    by (cases "d = DDone") (auto simp: sys_inv_def set_worker_def list_all_update alive_def)
next
  case (worker_defer_panic i s d ds p)
  let ?w = "workers s ! i"
  have ok: "worker_ok ?w" using worker_defer_panic by (auto simp: sys_inv_def worker_ok_nth)
  have "live ?w \<and> wg_count (srv s) < 1"
    using defer_panic [OF ok worker_defer_panic.hyps(2,4,5)] .
  moreover have "0 < live_count (workers s)"
    using calculation worker_defer_panic.hyps(1) by (auto intro: live_count_pos)
  moreover have "wg_count (srv s) = int (live_count (workers s)) + pending_add (acc s)"
    using worker_defer_panic.prems by (simp add: sys_inv_def)
  ultimately have False by (simp add: pending_add_def split: if_splits)
  then show ?case ..
qed

lemma reach_inv: "reach lp s \<Longrightarrow> sys_inv s"
  by (induction rule: reach.induct) (auto intro: init_sys_inv step_inv)

lemma closed_when_done: "worker_ok w \<Longrightarrow> \<not> live w \<Longrightarrow> \<not> w_public_open w \<and> \<not> w_local_open w"
  by (auto simp: worker_ok_def live_def split: worker_pc.splits)


lemma run_defer_keeps_stop:
  "run_defer d w ts = Inr (w', ts') \<Longrightarrow> stop_closed ts' = stop_closed ts"
  by (cases d) (auto simp: wg_add_Inr split: sum.splits)

lemma step_after_stop:
  "step s t \<Longrightarrow> stop_closed (srv s) \<Longrightarrow>
   stop_closed (srv t) \<and> length (workers t) + spawn_budget (acc t) \<le> length (workers s) + spawn_budget (acc s)"
  by (induction rule: step.induct)
     (auto simp: spawn_budget_def set_worker_def close_stop_Inr wg_add_Inr
           dest: start_keeps run_defer_keeps_stop)

lemma steps_after_stop:
  "step\<^sup>*\<^sup>* s t \<Longrightarrow> stop_closed (srv s) \<Longrightarrow>
   stop_closed (srv t) \<and> length (workers t) + spawn_budget (acc t) \<le> length (workers s) + spawn_budget (acc s)"
proof (induction rule: rtranclp_induct)
  case base
  then show ?case by simp
next
  case (step u t)
  then show ?case using step_after_stop [of u t] by fastforce
qed

lemma reach_steps: "step\<^sup>*\<^sup>* s t \<Longrightarrow> reach lp s \<Longrightarrow> reach lp t"
  by (induction rule: rtranclp_induct) (auto intro: reach_step)

lemma closed_listener_step:
  "reach lp u \<Longrightarrow> lis u = LClosed \<Longrightarrow> step u v \<Longrightarrow>
   lis v = LClosed \<and> backlog v = 0 \<and> length (workers v) = length (workers u)"
proof -
  assume r: "reach lp u" and c: "lis u = LClosed" and st: "step u v"
  have i: "sys_inv u" using r by (rule reach_inv)
  with c have a: "acc u = AExited" and m: "mpc u \<noteq> MInit" and b: "backlog u = 0"
    by (auto simp: sys_inv_def)
  from st a m b c show ?thesis
    by (cases rule: step.cases) (auto simp: set_worker_def)
qed

lemma demo_reach_waiting:
  "reach 3000 ((init_sys 3000)\<lparr>srv := (new_tunnel_server 3000)\<lparr>public_port := 40000\<rparr>,
      lis := LOpen, acc := ASelect, mpc := MRunning\<rparr>\<lparr>acc := AAccept\<rparr>
      \<lparr>srv := (new_tunnel_server 3000)\<lparr>public_port := 40000, stop_closed := True\<rparr>, mpc := MStopWait\<rparr>)"
proof -
  let ?e = "\<lparr>env_ifaces = Some [], env_listen = Some \<lparr>ta_ip = replicate 16 0, ta_zone = [], ta_port = 40000\<rparr>\<rparr>"
  have st: "start (new_tunnel_server 3000) ?e = Inr ((new_tunnel_server 3000)\<lparr>public_port := 40000\<rparr>, [])"
    using start_Inr [of ?e "[]" "\<lparr>ta_ip = replicate 16 0, ta_zone = [], ta_port = 40000\<rparr>"]
    by (simp add: bracket_free_def)
  let ?s1 = "(init_sys 3000)\<lparr>srv := (new_tunnel_server 3000)\<lparr>public_port := 40000\<rparr>,
      lis := LOpen, acc := ASelect, mpc := MRunning\<rparr>"
  have r1: "reach 3000 ?s1"
    by (rule reach_step [OF reach_init], rule main_start [where env = ?e and hostIP = "[]"])
       (simp_all add: init_sys_def alive_def st)
  have r2: "reach 3000 (?s1\<lparr>acc := AAccept\<rparr>)"
    by (rule reach_step [OF r1], rule accept_default) (simp_all add: model_simps)
  show ?thesis
    by (rule reach_step [OF r2], rule main_stop_close) (simp_all add: model_simps)
qed

lemma demo_trace:
  "reach 3000 ((init_sys 3000)\<lparr>srv := (new_tunnel_server 3000)\<lparr>public_port := 40000\<rparr>,
      lis := LOpen, acc := ASelect, mpc := MRunning\<rparr>\<lparr>acc := AAccept\<rparr>
      \<lparr>srv := (new_tunnel_server 3000)\<lparr>public_port := 40000, stop_closed := True\<rparr>, mpc := MStopWait\<rparr>)
   \<and> step\<^sup>*\<^sup>* ((init_sys 3000)\<lparr>srv := (new_tunnel_server 3000)\<lparr>public_port := 40000\<rparr>,
      lis := LOpen, acc := ASelect, mpc := MRunning\<rparr>\<lparr>acc := AAccept\<rparr>
      \<lparr>srv := (new_tunnel_server 3000)\<lparr>public_port := 40000, stop_closed := True\<rparr>, mpc := MStopWait\<rparr>)
      ((init_sys 3000)\<lparr>srv := (new_tunnel_server 3000)\<lparr>public_port := 40000, stop_closed := True, wg_count := 1\<rparr>,
        lis := LOpen, acc := ASelect, mpc := MStopWait, workers := [new_worker]\<rparr>)"
  (is "reach 3000 ?s3 \<and> step\<^sup>*\<^sup>* ?s3 ?s7")
proof
  show "reach 3000 ?s3" by (rule demo_reach_waiting)
  let ?s4 = "?s3\<lparr>backlog := Suc (backlog ?s3)\<rparr>"
  let ?s5 = "?s4\<lparr>backlog := backlog ?s4 - 1, acc := AGot\<rparr>"
  let ?s6 = "?s5\<lparr>srv := (srv ?s5)\<lparr>wg_count := wg_count (srv ?s5) + 1\<rparr>, acc := AAdded\<rparr>"
  let ?s7' = "?s6\<lparr>workers := workers ?s6 @ [new_worker], acc := ASelect\<rparr>"
  have a: "step ?s3 ?s4" by (rule peer_connect) (simp_all add: alive_def init_sys_def)
  have b: "step ?s4 ?s5" by (rule accept_ok) (simp_all add: alive_def init_sys_def)
  have c: "step ?s5 ?s6" by (rule accept_add) (simp_all add: alive_def init_sys_def wg_add_def new_tunnel_server_def)
  have d: "step ?s6 ?s7'" by (rule accept_go) (simp_all add: alive_def init_sys_def)
  have e: "?s7' = ?s7" by (simp add: init_sys_def new_tunnel_server_def)
  have "step\<^sup>*\<^sup>* ?s3 ?s4" using a by (rule r_into_rtranclp)
  then have "step\<^sup>*\<^sup>* ?s3 ?s5" using b by (rule rtranclp.rtrancl_into_rtrancl)
  then have "step\<^sup>*\<^sup>* ?s3 ?s6" using c by (rule rtranclp.rtrancl_into_rtrancl)
  then have "step\<^sup>*\<^sup>* ?s3 ?s7'" using d by (rule rtranclp.rtrancl_into_rtrancl)
  then show "step\<^sup>*\<^sup>* ?s3 ?s7" by (simp only: e)
qed


lemma demo_trace_exit:
  "step\<^sup>*\<^sup>* ((init_sys 3000)\<lparr>srv := (new_tunnel_server 3000)\<lparr>public_port := 40000, stop_closed := True, wg_count := 1\<rparr>,
        lis := LOpen, acc := ASelect, mpc := MStopWait, workers := [new_worker]\<rparr>)
     ((init_sys 3000)\<lparr>srv := (new_tunnel_server 3000)\<lparr>public_port := 40000, stop_closed := True\<rparr>,
        lis := LClosed, acc := AExited, mpc := MExited,
        workers := [new_worker\<lparr>w_pc := WReturn, w_defers := [], w_public_open := False\<rparr>]\<rparr>)"
  (is "step\<^sup>*\<^sup>* ?s7 ?s12")
proof -
  let ?s8 = "?s7\<lparr>lis := LClosed, backlog := 0, acc := AExited\<rparr>"
  let ?s9 = "set_worker ?s8 0 ((workers ?s8 ! 0)\<lparr>w_pc := WReturn\<rparr>)"
  let ?s10 = "(set_worker ?s9 0 (((workers ?s9 ! 0)\<lparr>w_defers := [DDone]\<rparr>)\<lparr>w_public_open := False\<rparr>))\<lparr>srv := srv ?s9\<rparr>"
  let ?s11 = "(set_worker ?s10 0 ((workers ?s10 ! 0)\<lparr>w_defers := []\<rparr>))\<lparr>srv := (srv ?s10)\<lparr>wg_count := wg_count (srv ?s10) + - 1\<rparr>\<rparr>"
  let ?s12' = "?s11\<lparr>mpc := MExited\<rparr>"
  have a: "step ?s7 ?s8" by (rule accept_stop) (simp_all add: alive_def init_sys_def new_tunnel_server_def)
  have b: "step ?s8 ?s9" by (rule worker_dial_fail) (simp_all add: alive_def init_sys_def new_worker_def)
  have c: "step ?s9 ?s10"
    by (rule worker_defer [where d = DClosePublic and ds = "[DDone]"])
       (simp_all add: alive_def init_sys_def set_worker_def new_worker_def)
  have d: "step ?s10 ?s11"
    by (rule worker_defer [where d = DDone and ds = "[]"])
       (simp_all add: alive_def init_sys_def set_worker_def new_worker_def wg_add_def new_tunnel_server_def)
  have e: "step ?s11 ?s12'"
    by (rule main_wait_done) (simp_all add: alive_def init_sys_def set_worker_def new_tunnel_server_def)
  have eq: "?s12' = ?s12" by (simp add: init_sys_def new_tunnel_server_def set_worker_def new_worker_def)
  have "step\<^sup>*\<^sup>* ?s7 ?s8" using a by (rule r_into_rtranclp)
  then have "step\<^sup>*\<^sup>* ?s7 ?s9" using b by (rule rtranclp.rtrancl_into_rtrancl)
  then have "step\<^sup>*\<^sup>* ?s7 ?s10" using c by (rule rtranclp.rtrancl_into_rtrancl)
  then have "step\<^sup>*\<^sup>* ?s7 ?s11" using d by (rule rtranclp.rtrancl_into_rtrancl)
  then have "step\<^sup>*\<^sup>* ?s7 ?s12'" using e by (rule rtranclp.rtrancl_into_rtrancl)
  then show ?thesis by (simp only: eq)
qed


lemma demo_reach_relay: "reach 3000 ((init_sys 3000)\<lparr>srv := (new_tunnel_server 3000)\<lparr>public_port := 40000, stop_closed := True, wg_count := 1\<rparr>,
        lis := LOpen, acc := ASelect, mpc := MStopWait, workers := [new_worker]\<rparr>)"
  using demo_trace reach_steps by blast

lemma demo_reach_exit: "reach 3000 ((init_sys 3000)\<lparr>srv := (new_tunnel_server 3000)\<lparr>public_port := 40000, stop_closed := True\<rparr>,
        lis := LClosed, acc := AExited, mpc := MExited,
        workers := [new_worker\<lparr>w_pc := WReturn, w_defers := [], w_public_open := False\<rparr>]\<rparr>)"
  using demo_trace_exit demo_reach_relay reach_steps by blast

subsection \<open>Properties of the running tunnel\<close>

text \<open>C1: the WaitGroup counter \<open>connections\<close> always equals the number of relay
  workers that have not yet run their deferred \<open>Done\<close>, plus one while the accept loop
  is between \<open>connections.Add(1)\<close> and \<open>go handleConnection\<close> (the counted wait
  group of spec section 3).\<close>

theorem waitgroup_counts_live_relays:
  "reach lp s \<Longrightarrow> wg_count (srv s) = int (live_count (workers s)) + pending_add (acc s)"
  using reach_inv by (simp add: sys_inv_def)

theorem waitgroup_counts_live_relays_witness:
  "reach 3000 ((init_sys 3000)\<lparr>srv := (new_tunnel_server 3000)\<lparr>public_port := 40000, stop_closed := True, wg_count := 1\<rparr>,
        lis := LOpen, acc := ASelect, mpc := MStopWait, workers := [new_worker]\<rparr>) \<and>
   wg_count (srv ((init_sys 3000)\<lparr>srv := (new_tunnel_server 3000)\<lparr>public_port := 40000, stop_closed := True, wg_count := 1\<rparr>,
        lis := LOpen, acc := ASelect, mpc := MStopWait, workers := [new_worker]\<rparr>)) =
     int (live_count (workers ((init_sys 3000)\<lparr>srv := (new_tunnel_server 3000)\<lparr>public_port := 40000, stop_closed := True, wg_count := 1\<rparr>,
        lis := LOpen, acc := ASelect, mpc := MStopWait, workers := [new_worker]\<rparr>))) + pending_add (acc ((init_sys 3000)\<lparr>srv := (new_tunnel_server 3000)\<lparr>public_port := 40000, stop_closed := True, wg_count := 1\<rparr>,
        lis := LOpen, acc := ASelect, mpc := MStopWait, workers := [new_worker]\<rparr>))"
  using waitgroup_counts_live_relays [OF demo_reach_relay] demo_reach_relay by simp

text \<open>C2: a relay worker runs its deferred \<open>connections.Done()\<close> only after both of
  its connection handles are closed, because the defers run in reverse order.\<close>

theorem done_only_after_both_closed:
  "reach lp s \<Longrightarrow> w \<in> set (workers s) \<Longrightarrow> \<not> live w \<Longrightarrow> \<not> w_public_open w \<and> \<not> w_local_open w"
proof -
  assume "reach lp s" and w: "w \<in> set (workers s)" and "\<not> live w"
  then have "worker_ok w" using reach_inv by (auto simp: sys_inv_def list_all_iff)
  then show ?thesis using \<open>\<not> live w\<close> by (rule closed_when_done)
qed

theorem done_only_after_both_closed_witness:
  "reach 3000 ((init_sys 3000)\<lparr>srv := (new_tunnel_server 3000)\<lparr>public_port := 40000, stop_closed := True\<rparr>,
        lis := LClosed, acc := AExited, mpc := MExited,
        workers := [new_worker\<lparr>w_pc := WReturn, w_defers := [], w_public_open := False\<rparr>]\<rparr>) \<and>
   new_worker\<lparr>w_pc := WReturn, w_defers := [], w_public_open := False\<rparr> \<in> set (workers ((init_sys 3000)\<lparr>srv := (new_tunnel_server 3000)\<lparr>public_port := 40000, stop_closed := True\<rparr>,
        lis := LClosed, acc := AExited, mpc := MExited,
        workers := [new_worker\<lparr>w_pc := WReturn, w_defers := [], w_public_open := False\<rparr>]\<rparr>)) \<and>
   \<not> live (new_worker\<lparr>w_pc := WReturn, w_defers := [], w_public_open := False\<rparr>) \<and>
   \<not> w_public_open (new_worker\<lparr>w_pc := WReturn, w_defers := [], w_public_open := False\<rparr>) \<and>
   \<not> w_local_open (new_worker\<lparr>w_pc := WReturn, w_defers := [], w_public_open := False\<rparr>)"
proof -
  have m: "new_worker\<lparr>w_pc := WReturn, w_defers := [], w_public_open := False\<rparr> \<in> set (workers ((init_sys 3000)\<lparr>srv := (new_tunnel_server 3000)\<lparr>public_port := 40000, stop_closed := True\<rparr>,
        lis := LClosed, acc := AExited, mpc := MExited,
        workers := [new_worker\<lparr>w_pc := WReturn, w_defers := [], w_public_open := False\<rparr>]\<rparr>))"
    by (simp add: init_sys_def)
  have l: "\<not> live (new_worker\<lparr>w_pc := WReturn, w_defers := [], w_public_open := False\<rparr>)"
    by (simp add: live_def)
  show ?thesis using done_only_after_both_closed [OF demo_reach_exit m l] demo_reach_exit m l by simp
qed



text \<open>C9: once \<open>stopChan\<close> is closed, at most one more relay worker is ever started:
  the one whose \<open>Accept\<close> was already pending when \<open>Stop\<close> ran.\<close>

theorem at_most_one_relay_after_stop:
  "stop_closed (srv s) \<Longrightarrow> step\<^sup>*\<^sup>* s t \<Longrightarrow> length (workers t) \<le> Suc (length (workers s))"
  using steps_after_stop [of s t] by (auto simp: spawn_budget_def split: if_splits)

theorem at_most_one_relay_after_stop_witness:
  "stop_closed (srv ((init_sys 3000)\<lparr>srv := (new_tunnel_server 3000)\<lparr>public_port := 40000\<rparr>,
      lis := LOpen, acc := ASelect, mpc := MRunning\<rparr>\<lparr>acc := AAccept\<rparr>
      \<lparr>srv := (new_tunnel_server 3000)\<lparr>public_port := 40000, stop_closed := True\<rparr>, mpc := MStopWait\<rparr>)) \<and>
   step\<^sup>*\<^sup>* ((init_sys 3000)\<lparr>srv := (new_tunnel_server 3000)\<lparr>public_port := 40000\<rparr>,
      lis := LOpen, acc := ASelect, mpc := MRunning\<rparr>\<lparr>acc := AAccept\<rparr>
      \<lparr>srv := (new_tunnel_server 3000)\<lparr>public_port := 40000, stop_closed := True\<rparr>, mpc := MStopWait\<rparr>) ((init_sys 3000)\<lparr>srv := (new_tunnel_server 3000)\<lparr>public_port := 40000, stop_closed := True, wg_count := 1\<rparr>,
        lis := LOpen, acc := ASelect, mpc := MStopWait, workers := [new_worker]\<rparr>) \<and>
   length (workers ((init_sys 3000)\<lparr>srv := (new_tunnel_server 3000)\<lparr>public_port := 40000, stop_closed := True, wg_count := 1\<rparr>,
        lis := LOpen, acc := ASelect, mpc := MStopWait, workers := [new_worker]\<rparr>)) \<le> Suc (length (workers ((init_sys 3000)\<lparr>srv := (new_tunnel_server 3000)\<lparr>public_port := 40000\<rparr>,
      lis := LOpen, acc := ASelect, mpc := MRunning\<rparr>\<lparr>acc := AAccept\<rparr>
      \<lparr>srv := (new_tunnel_server 3000)\<lparr>public_port := 40000, stop_closed := True\<rparr>, mpc := MStopWait\<rparr>)))"
proof -
  have st: "stop_closed (srv ((init_sys 3000)\<lparr>srv := (new_tunnel_server 3000)\<lparr>public_port := 40000\<rparr>,
      lis := LOpen, acc := ASelect, mpc := MRunning\<rparr>\<lparr>acc := AAccept\<rparr>
      \<lparr>srv := (new_tunnel_server 3000)\<lparr>public_port := 40000, stop_closed := True\<rparr>, mpc := MStopWait\<rparr>))" by simp
  have tr: "step\<^sup>*\<^sup>* ((init_sys 3000)\<lparr>srv := (new_tunnel_server 3000)\<lparr>public_port := 40000\<rparr>,
      lis := LOpen, acc := ASelect, mpc := MRunning\<rparr>\<lparr>acc := AAccept\<rparr>
      \<lparr>srv := (new_tunnel_server 3000)\<lparr>public_port := 40000, stop_closed := True\<rparr>, mpc := MStopWait\<rparr>) ((init_sys 3000)\<lparr>srv := (new_tunnel_server 3000)\<lparr>public_port := 40000, stop_closed := True, wg_count := 1\<rparr>,
        lis := LOpen, acc := ASelect, mpc := MStopWait, workers := [new_worker]\<rparr>)" using demo_trace by blast
  show ?thesis using at_most_one_relay_after_stop [OF st tr] st tr by blast
qed

text \<open>C10: \<open>Stop\<close> does not stop accepting: after \<open>stopChan\<close> is closed and while
  \<open>Stop\<close> waits, the listener is still open, a public peer can still connect, and its
  connection is accepted, counted and relayed by a new worker.\<close>

theorem relay_accepted_after_stop:
  "\<exists>s t. reach 3000 s \<and> mpc s = MStopWait \<and> stop_closed (srv s) \<and> lis s = LOpen \<and> workers s = [] \<and>
         step\<^sup>*\<^sup>* s t \<and> mpc t = MStopWait \<and> workers t = [new_worker] \<and> wg_count (srv t) = 1"
proof -
  have "mpc ((init_sys 3000)\<lparr>srv := (new_tunnel_server 3000)\<lparr>public_port := 40000\<rparr>,
      lis := LOpen, acc := ASelect, mpc := MRunning\<rparr>\<lparr>acc := AAccept\<rparr>
      \<lparr>srv := (new_tunnel_server 3000)\<lparr>public_port := 40000, stop_closed := True\<rparr>, mpc := MStopWait\<rparr>) = MStopWait \<and> stop_closed (srv ((init_sys 3000)\<lparr>srv := (new_tunnel_server 3000)\<lparr>public_port := 40000\<rparr>,
      lis := LOpen, acc := ASelect, mpc := MRunning\<rparr>\<lparr>acc := AAccept\<rparr>
      \<lparr>srv := (new_tunnel_server 3000)\<lparr>public_port := 40000, stop_closed := True\<rparr>, mpc := MStopWait\<rparr>)) \<and> lis ((init_sys 3000)\<lparr>srv := (new_tunnel_server 3000)\<lparr>public_port := 40000\<rparr>,
      lis := LOpen, acc := ASelect, mpc := MRunning\<rparr>\<lparr>acc := AAccept\<rparr>
      \<lparr>srv := (new_tunnel_server 3000)\<lparr>public_port := 40000, stop_closed := True\<rparr>, mpc := MStopWait\<rparr>) = LOpen \<and>
        workers ((init_sys 3000)\<lparr>srv := (new_tunnel_server 3000)\<lparr>public_port := 40000\<rparr>,
      lis := LOpen, acc := ASelect, mpc := MRunning\<rparr>\<lparr>acc := AAccept\<rparr>
      \<lparr>srv := (new_tunnel_server 3000)\<lparr>public_port := 40000, stop_closed := True\<rparr>, mpc := MStopWait\<rparr>) = []"
    by (simp add: init_sys_def)
  moreover have "mpc ((init_sys 3000)\<lparr>srv := (new_tunnel_server 3000)\<lparr>public_port := 40000, stop_closed := True, wg_count := 1\<rparr>,
        lis := LOpen, acc := ASelect, mpc := MStopWait, workers := [new_worker]\<rparr>) = MStopWait \<and> workers ((init_sys 3000)\<lparr>srv := (new_tunnel_server 3000)\<lparr>public_port := 40000, stop_closed := True, wg_count := 1\<rparr>,
        lis := LOpen, acc := ASelect, mpc := MStopWait, workers := [new_worker]\<rparr>) = [new_worker] \<and>
        wg_count (srv ((init_sys 3000)\<lparr>srv := (new_tunnel_server 3000)\<lparr>public_port := 40000, stop_closed := True, wg_count := 1\<rparr>,
        lis := LOpen, acc := ASelect, mpc := MStopWait, workers := [new_worker]\<rparr>)) = 1"
    by (simp add: init_sys_def new_tunnel_server_def)
  ultimately show ?thesis using demo_trace by blast
qed

text \<open>C11: \<open>Stop\<close> is not idempotent: once the process has called it, a second call
  panics with "close of closed channel".\<close>

theorem second_stop_panics:
  "reach lp s \<Longrightarrow> mpc s = MStopWait \<or> mpc s = MExited \<Longrightarrow>
   close_stop (srv s) = Inl PanicCloseOfClosedChannel"
  using reach_inv [of lp s] by (auto simp: sys_inv_def close_stop_def)

theorem second_stop_panics_witness:
  "reach 3000 ((init_sys 3000)\<lparr>srv := (new_tunnel_server 3000)\<lparr>public_port := 40000, stop_closed := True\<rparr>,
        lis := LClosed, acc := AExited, mpc := MExited,
        workers := [new_worker\<lparr>w_pc := WReturn, w_defers := [], w_public_open := False\<rparr>]\<rparr>) \<and> (mpc ((init_sys 3000)\<lparr>srv := (new_tunnel_server 3000)\<lparr>public_port := 40000, stop_closed := True\<rparr>,
        lis := LClosed, acc := AExited, mpc := MExited,
        workers := [new_worker\<lparr>w_pc := WReturn, w_defers := [], w_public_open := False\<rparr>]\<rparr>) = MStopWait \<or> mpc ((init_sys 3000)\<lparr>srv := (new_tunnel_server 3000)\<lparr>public_port := 40000, stop_closed := True\<rparr>,
        lis := LClosed, acc := AExited, mpc := MExited,
        workers := [new_worker\<lparr>w_pc := WReturn, w_defers := [], w_public_open := False\<rparr>]\<rparr>) = MExited) \<and>
   close_stop (srv ((init_sys 3000)\<lparr>srv := (new_tunnel_server 3000)\<lparr>public_port := 40000, stop_closed := True\<rparr>,
        lis := LClosed, acc := AExited, mpc := MExited,
        workers := [new_worker\<lparr>w_pc := WReturn, w_defers := [], w_public_open := False\<rparr>]\<rparr>)) = Inl PanicCloseOfClosedChannel"
proof -
  have m: "mpc ((init_sys 3000)\<lparr>srv := (new_tunnel_server 3000)\<lparr>public_port := 40000, stop_closed := True\<rparr>,
        lis := LClosed, acc := AExited, mpc := MExited,
        workers := [new_worker\<lparr>w_pc := WReturn, w_defers := [], w_public_open := False\<rparr>]\<rparr>) = MStopWait \<or> mpc ((init_sys 3000)\<lparr>srv := (new_tunnel_server 3000)\<lparr>public_port := 40000, stop_closed := True\<rparr>,
        lis := LClosed, acc := AExited, mpc := MExited,
        workers := [new_worker\<lparr>w_pc := WReturn, w_defers := [], w_public_open := False\<rparr>]\<rparr>) = MExited" by (simp add: init_sys_def)
  show ?thesis using second_stop_panics [OF demo_reach_exit m] demo_reach_exit m by blast
qed

text \<open>C12: once the accept loop has closed the listener, it stays closed, no connection
  waits in its backlog and no further relay worker is started.\<close>

theorem closed_listener_final:
  "reach lp s \<Longrightarrow> lis s = LClosed \<Longrightarrow> step\<^sup>*\<^sup>* s t \<Longrightarrow>
   lis t = LClosed \<and> backlog t = 0 \<and> length (workers t) = length (workers s)"
proof -
  assume r: "reach lp s" and c: "lis s = LClosed" and st: "step\<^sup>*\<^sup>* s t"
  from st show ?thesis
  proof (induction rule: rtranclp_induct)
    case base
    with r c show ?case using reach_inv [OF r] by (auto simp: sys_inv_def)
  next
    case (step u v)
    have "reach lp u" using step.hyps(1) r by (rule reach_steps)
    with step show ?case using closed_listener_step [of lp u v] by auto
  qed
qed

theorem closed_listener_final_witness:
  "reach 3000 ((init_sys 3000)\<lparr>srv := (new_tunnel_server 3000)\<lparr>public_port := 40000, stop_closed := True\<rparr>,
        lis := LClosed, acc := AExited, mpc := MExited,
        workers := [new_worker\<lparr>w_pc := WReturn, w_defers := [], w_public_open := False\<rparr>]\<rparr>) \<and> lis ((init_sys 3000)\<lparr>srv := (new_tunnel_server 3000)\<lparr>public_port := 40000, stop_closed := True\<rparr>,
        lis := LClosed, acc := AExited, mpc := MExited,
        workers := [new_worker\<lparr>w_pc := WReturn, w_defers := [], w_public_open := False\<rparr>]\<rparr>) = LClosed \<and>
   step\<^sup>*\<^sup>* ((init_sys 3000)\<lparr>srv := (new_tunnel_server 3000)\<lparr>public_port := 40000, stop_closed := True\<rparr>,
        lis := LClosed, acc := AExited, mpc := MExited,
        workers := [new_worker\<lparr>w_pc := WReturn, w_defers := [], w_public_open := False\<rparr>]\<rparr>) ((init_sys 3000)\<lparr>srv := (new_tunnel_server 3000)\<lparr>public_port := 40000, stop_closed := True\<rparr>,
        lis := LClosed, acc := AExited, mpc := MExited,
        workers := [new_worker\<lparr>w_pc := WReturn, w_defers := [], w_public_open := False\<rparr>]\<rparr>) \<and>
   lis ((init_sys 3000)\<lparr>srv := (new_tunnel_server 3000)\<lparr>public_port := 40000, stop_closed := True\<rparr>,
        lis := LClosed, acc := AExited, mpc := MExited,
        workers := [new_worker\<lparr>w_pc := WReturn, w_defers := [], w_public_open := False\<rparr>]\<rparr>) = LClosed \<and> backlog ((init_sys 3000)\<lparr>srv := (new_tunnel_server 3000)\<lparr>public_port := 40000, stop_closed := True\<rparr>,
        lis := LClosed, acc := AExited, mpc := MExited,
        workers := [new_worker\<lparr>w_pc := WReturn, w_defers := [], w_public_open := False\<rparr>]\<rparr>) = 0 \<and>
   length (workers ((init_sys 3000)\<lparr>srv := (new_tunnel_server 3000)\<lparr>public_port := 40000, stop_closed := True\<rparr>,
        lis := LClosed, acc := AExited, mpc := MExited,
        workers := [new_worker\<lparr>w_pc := WReturn, w_defers := [], w_public_open := False\<rparr>]\<rparr>)) = length (workers ((init_sys 3000)\<lparr>srv := (new_tunnel_server 3000)\<lparr>public_port := 40000, stop_closed := True\<rparr>,
        lis := LClosed, acc := AExited, mpc := MExited,
        workers := [new_worker\<lparr>w_pc := WReturn, w_defers := [], w_public_open := False\<rparr>]\<rparr>))"
proof -
  have c: "lis ((init_sys 3000)\<lparr>srv := (new_tunnel_server 3000)\<lparr>public_port := 40000, stop_closed := True\<rparr>,
        lis := LClosed, acc := AExited, mpc := MExited,
        workers := [new_worker\<lparr>w_pc := WReturn, w_defers := [], w_public_open := False\<rparr>]\<rparr>) = LClosed" by (simp add: init_sys_def)
  have t: "step\<^sup>*\<^sup>* ((init_sys 3000)\<lparr>srv := (new_tunnel_server 3000)\<lparr>public_port := 40000, stop_closed := True\<rparr>,
        lis := LClosed, acc := AExited, mpc := MExited,
        workers := [new_worker\<lparr>w_pc := WReturn, w_defers := [], w_public_open := False\<rparr>]\<rparr>) ((init_sys 3000)\<lparr>srv := (new_tunnel_server 3000)\<lparr>public_port := 40000, stop_closed := True\<rparr>,
        lis := LClosed, acc := AExited, mpc := MExited,
        workers := [new_worker\<lparr>w_pc := WReturn, w_defers := [], w_public_open := False\<rparr>]\<rparr>)" by (rule rtranclp.rtrancl_refl)
  show ?thesis using closed_listener_final [OF demo_reach_exit c t] demo_reach_exit c t by blast
qed

end
