(* ===== verification/IoCopy.thy ===== *)
theory IoCopy
  imports Prelude "HOL-Library.Sublist"
begin

text \<open>
  \<open>io.Copy(dst, src)\<close>, which each relay direction of \<open>handleConnection\<close> runs
  (\<open>src/main.go\<close>, lines 102 and 107): the loop of Go's \<open>io.copyBuffer\<close> with its
  32 KiB buffer.  The source is the list of results its successive \<open>Read\<close> calls
  return (the bytes, at most the buffer's size, and an error or \<open>nil\<close>); the
  destination is the list of results of its \<open>Write\<close> calls (the count \<open>nw\<close> as a Go
  \<open>int\<close> and an error).  \<open>copy_buffer\<close> returns \<open>None\<close> when it needs a result past the
  end of these lists, i.e. when the copy is still blocked in \<open>Read\<close> or \<open>Write\<close>;
  otherwise the count \<open>written\<close> (an \<open>int64\<close>, wrapping), the error, and the bytes
  the destination accepted.  The \<open>WriterTo\<close>/\<open>ReaderFrom\<close> fast paths of \<open>*net.TCPConn\<close>
  (splice, sendfile) fall back to this loop and deliver the same bytes; they are not
  modelled separately.
\<close>

datatype io_error = EOF | ErrShortWrite | ErrInvalidWrite | ErrNetClosing | ErrOther nat

type_synonym read_result = "byte list \<times> io_error option"
type_synonym write_result = "go_int \<times> io_error option"

definition copy_buf_size :: nat where
  "copy_buf_size = 32 * 1024"

fun copy_buffer ::
  "read_result list \<Rightarrow> write_result list \<Rightarrow> go_int \<Rightarrow> byte list \<Rightarrow> (go_int \<times> io_error option \<times> byte list) option" where
  "copy_buffer [] ws written out = None"
| "copy_buffer ((buf, er) # rs) ws written out =
     (if 0 < length buf then
        (case ws of
           [] \<Rightarrow> None
         | (nw0, ew0) # ws' \<Rightarrow>
             (let nr = (of_nat (length buf) :: go_int);
                  bad = (sint nw0 < 0 \<or> sint nr < sint nw0);
                  nw = (if bad then 0 else nw0);
                  ew = (if bad \<and> ew0 = None then Some ErrInvalidWrite else ew0);
                  written' = written + nw;
                  out' = out @ take (unat nw) buf
              in if ew \<noteq> None then Some (written', ew, out')
                 else if nr \<noteq> nw then Some (written', Some ErrShortWrite, out')
                 else (case er of
                         None \<Rightarrow> copy_buffer rs ws' written' out'
                       | Some e \<Rightarrow> Some (written', if e = EOF then None else Some e, out'))))
      else
        (case er of
           None \<Rightarrow> copy_buffer rs ws written out
         | Some e \<Rightarrow> Some (written, if e = EOF then None else Some e, out)))"

definition io_copy :: "read_result list \<Rightarrow> write_result list \<Rightarrow> (go_int \<times> io_error option \<times> byte list) option" where
  "io_copy rs ws = copy_buffer rs ws 0 []"

definition reads_fit :: "read_result list \<Rightarrow> bool" where
  "reads_fit rs \<longleftrightarrow> list_all (\<lambda>(b, _). length b \<le> copy_buf_size) rs"

definition full_writes :: "read_result list \<Rightarrow> write_result list" where
  "full_writes rs = map (\<lambda>(b, _). (of_nat (length b), None)) (filter (\<lambda>(b, _). b \<noteq> []) rs)"

definition stream_bytes :: "read_result list \<Rightarrow> byte list" where
  "stream_bytes rs = concat (map fst rs)"

lemma sint_of_nat_buf: "n \<le> copy_buf_size \<Longrightarrow> sint (of_nat n :: go_int) = int n"
  by (simp add: signed_of_nat signed_take_bit_int_eq_self copy_buf_size_def)

lemma unat_of_nat_buf: "n \<le> copy_buf_size \<Longrightarrow> unat (of_nat n :: go_int) = n"
  by (simp add: unat_of_nat copy_buf_size_def)

lemma copy_buffer_prefix:
  "reads_fit rs \<Longrightarrow> copy_buffer rs ws w out = Some (n, e, out') \<Longrightarrow>
   \<exists>p. out' = out @ p \<and> prefix p (stream_bytes rs) \<and> n = w + of_nat (length p)"
proof (induction rs arbitrary: ws w out)
  case Nil
  then show ?case by simp
next
  case (Cons c rs)
  obtain buf er where c: "c = (buf, er)" by (cases c)
  have fit: "length buf \<le> copy_buf_size" and fits: "reads_fit rs"
    using Cons.prems(1) c by (simp_all add: reads_fit_def)
  have run: "copy_buffer ((buf, er) # rs) ws w out = Some (n, e, out')" using Cons.prems(2) c by simp
  have sb: "stream_bytes (c # rs) = buf @ stream_bytes rs" by (simp add: c stream_bytes_def)
  show ?case
  proof (cases "0 < length buf")
    case False
    show ?thesis
    proof (cases er)
      case None
      then have "copy_buffer rs ws w out = Some (n, e, out')" using run False by simp
      then show ?thesis using Cons.IH [OF fits] False sb by simp
    next
      case (Some x)
      then show ?thesis using run False by (auto simp: sb)
    qed
  next
    case True
    then obtain nw0 ew0 ws' where ws: "ws = (nw0, ew0) # ws'"
      using run by (cases ws) auto
    let ?nr = "of_nat (length buf) :: go_int"
    have snr: "sint ?nr = int (length buf)" using fit by (rule sint_of_nat_buf)
    define bad where "bad = (sint nw0 < 0 \<or> sint ?nr < sint nw0)"
    define nw where "nw = (if bad then 0 else nw0)"
    have unw: "unat nw \<le> length buf"
    proof (cases bad)
      case False
      then have "0 \<le> sint nw0" "sint nw0 \<le> int (length buf)" using snr by (auto simp: bad_def)
      then have "int (unat nw0) \<le> int (length buf)" using sint_nonneg_eq_unat [of nw0] by linarith
      then have "unat nw0 \<le> length buf" by (simp only: of_nat_le_iff)
      then show ?thesis by (simp add: nw_def False)
    qed (simp add: nw_def)
    have tk: "prefix (take (unat nw) buf) (buf @ stream_bytes rs)"
      by (metis append_take_drop_id prefix_append prefix_order.refl)
    have cnt: "w + nw = w + of_nat (length (take (unat nw) buf))"
      using unw by simp
    show ?thesis
    proof (cases "?nr \<noteq> nw \<or> (if bad \<and> ew0 = None then Some ErrInvalidWrite else ew0) \<noteq> None \<or> er \<noteq> None")
      case stop: True
      then have "out' = out @ take (unat nw) buf \<and> n = w + nw"
        using run True ws by (auto simp: Let_def bad_def nw_def split: if_splits option.splits)
      then show ?thesis using tk cnt sb by auto
    next
      case False
      then have eq: "nw = ?nr" and er: "er = None" by auto
      have un: "unat nw = length buf" using eq fit by (simp add: unat_of_nat_buf)
      have "copy_buffer rs ws' (w + nw) (out @ take (unat nw) buf) = Some (n, e, out')"
        using run True ws False by (auto simp: Let_def bad_def nw_def split: if_splits)
      then obtain p where "out' = out @ buf @ p" "prefix p (stream_bytes rs)"
          "n = w + nw + of_nat (length p)"
        using Cons.IH [OF fits] un by fastforce
      then show ?thesis using eq sb by (intro exI [of _ "buf @ p"]) (simp add: ac_simps)
    qed
  qed
qed

lemma full_writes_Cons:
  "full_writes ((buf, er) # rs) =
     (if buf = [] then full_writes rs else (of_nat (length buf), None) # full_writes rs)"
  by (simp add: full_writes_def)

lemma copy_buffer_full_chunk:
  assumes "0 < length buf" "length buf \<le> copy_buf_size"
  shows "copy_buffer ((buf, er) # rs) ((of_nat (length buf), None) # ws) w out =
    (case er of None \<Rightarrow> copy_buffer rs ws (w + of_nat (length buf)) (out @ buf)
     | Some e \<Rightarrow> Some (w + of_nat (length buf), if e = EOF then None else Some e, out @ buf))"
proof -
  have "sint (of_nat (length buf) :: go_int) = int (length buf)" using assms(2) by (rule sint_of_nat_buf)
  moreover have "unat (of_nat (length buf) :: go_int) = length buf" using assms(2) by (rule unat_of_nat_buf)
  ultimately show ?thesis using assms(1) by (simp add: Let_def split: option.split)
qed

lemma copy_buffer_full:
  "reads_fit rs \<Longrightarrow> list_all (\<lambda>(b, e). e = None) rs \<Longrightarrow> length b \<le> copy_buf_size \<Longrightarrow>
   copy_buffer (rs @ [(b, Some EOF)]) (full_writes (rs @ [(b, Some EOF)])) w out =
   Some (w + of_nat (length (stream_bytes (rs @ [(b, Some EOF)]))), None,
         out @ stream_bytes (rs @ [(b, Some EOF)]))"
proof (induction rs arbitrary: w out)
  case Nil
  show ?case
  proof (cases "b = []")
    case True
    then show ?thesis by (simp add: full_writes_def stream_bytes_def)
  next
    case False
    then show ?thesis using copy_buffer_full_chunk [of b "Some EOF" "[]" "[]" w out] Nil.prems(3)
      by (simp add: full_writes_Cons full_writes_def stream_bytes_def del: copy_buffer.simps(2))
  qed
next
  case (Cons c rs)
  obtain buf where c: "c = (buf, None)" using Cons.prems(2) by (cases c) auto
  have fit: "length buf \<le> copy_buf_size" and fits: "reads_fit rs" and ok: "list_all (\<lambda>(b, e). e = None) rs"
    using Cons.prems(1,2) c by (simp_all add: reads_fit_def)
  note IH = Cons.IH [OF fits ok Cons.prems(3)]
  show ?case
  proof (cases "buf = []")
    case True
    then show ?thesis using IH by (simp add: c full_writes_Cons stream_bytes_def)
  next
    case False
    then show ?thesis using IH copy_buffer_full_chunk [of buf None] fit
      by (simp add: c full_writes_Cons stream_bytes_def ac_simps del: copy_buffer.simps(2))
  qed
qed

lemma copy_buffer_returns:
  "list_ex (\<lambda>(b, e). e \<noteq> None) rs \<Longrightarrow> length (filter (\<lambda>(b, _). b \<noteq> []) rs) \<le> length ws \<Longrightarrow>
   \<exists>r. copy_buffer rs ws w out = Some r"
proof (induction rs arbitrary: ws w out)
  case Nil
  then show ?case by simp
next
  case (Cons c rs)
  obtain buf er where c: "c = (buf, er)" by (cases c)
  show ?case
  proof (cases "buf = []")
    case True
    then show ?thesis using Cons c by (cases er) auto
  next
    case False
    then obtain nw0 ew0 ws' where ws: "ws = (nw0, ew0) # ws'" using Cons.prems(2) c by (cases ws) auto
    have more: "er = None \<Longrightarrow> \<exists>r. copy_buffer rs ws' w' out' = Some r" for w' out'
      using Cons.IH [of ws' w' out'] Cons.prems c ws False by auto
    show ?thesis using False more by (simp add: c ws Let_def split: option.split)
  qed
qed

subsection \<open>Properties of io.Copy\<close>

text \<open>C7: when every \<open>Write\<close> accepts the whole chunk, \<open>io.Copy\<close> delivers to the
  destination exactly the bytes read from the source, in order, up to \<open>EOF\<close>, and
  returns their number and a \<open>nil\<close> error (the byte identity of each relay direction).\<close>

theorem io_copy_relays_stream:
  assumes "reads_fit rs" and "list_all (\<lambda>(b, e). e = None) rs" and "length b \<le> copy_buf_size"
  shows "io_copy (rs @ [(b, Some EOF)]) (full_writes (rs @ [(b, Some EOF)])) =
    Some (of_nat (length (stream_bytes (rs @ [(b, Some EOF)]))), None, stream_bytes (rs @ [(b, Some EOF)]))"
  using copy_buffer_full [OF assms, of 0 "[]"] by (simp add: io_copy_def)

theorem io_copy_relays_stream_witness:
  "reads_fit [([112, 105, 110], None)] \<and> list_all (\<lambda>(b, e). e = None) [([112, 105, 110], None)] \<and>
   length [103::byte] \<le> copy_buf_size \<and>
   io_copy [([112, 105, 110], None), ([103], Some EOF)] [(3, None), (1, None)] =
     Some (4, None, [112, 105, 110, 103])"
proof -
  have h: "reads_fit [([112, 105, 110], None)]" "list_all (\<lambda>(b, e). e = None) [([112, 105, 110::byte], None)]"
    "length [103::byte] \<le> copy_buf_size"
    by (simp_all add: reads_fit_def copy_buf_size_def)
  show ?thesis using io_copy_relays_stream [OF h] h
    by (simp add: full_writes_def stream_bytes_def del: copy_buffer.simps)
qed

text \<open>C8: whatever the destination's \<open>Write\<close> calls and the source's errors do,
  \<open>io.Copy\<close> delivers a prefix of the bytes it read and returns exactly the number of
  bytes it delivered: a relay never invents, drops inside, or reorders bytes.\<close>

theorem io_copy_delivers_prefix:
  "reads_fit rs \<Longrightarrow> io_copy rs ws = Some (n, e, out) \<Longrightarrow>
   prefix out (stream_bytes rs) \<and> n = of_nat (length out)"
  using copy_buffer_prefix [of rs ws 0 "[]" n e out] by (auto simp: io_copy_def)

theorem io_copy_delivers_prefix_witness:
  "reads_fit [([1, 2, 3], None), ([4], Some EOF)] \<and>
   io_copy [([1, 2, 3], None), ([4], Some EOF)] [(2, None)] = Some (2, Some ErrShortWrite, [1, 2]) \<and>
   prefix [1, 2] (stream_bytes [([1, 2, 3], None), ([4::byte], Some EOF)]) \<and> (2::go_int) = of_nat (length [1::byte, 2])"
proof -
  have h: "reads_fit [([1, 2, 3::byte], None), ([4], Some EOF)]" by (simp add: reads_fit_def copy_buf_size_def)
  have r: "io_copy [([1, 2, 3], None), ([4::byte], Some EOF)] [(2, None)] = Some (2, Some ErrShortWrite, [1, 2])"
    by (simp add: io_copy_def)
  show ?thesis using io_copy_delivers_prefix [OF h r] h r by simp
qed

text \<open>C17: a \<open>Read\<close> error other than \<open>EOF\<close> ends \<open>io.Copy\<close> with that error, after the
  bytes returned together with it have been written (a closed or reset connection ends
  the relay direction with its error).\<close>

theorem io_copy_read_error:
  assumes "e \<noteq> EOF" and "length b \<le> copy_buf_size"
  shows "io_copy ((b, Some e) # rs) (full_writes [(b, Some e)] @ ws) = Some (of_nat (length b), Some e, b)"
proof (cases "b = []")
  case True
  then show ?thesis using assms(1) by (simp add: io_copy_def full_writes_def)
next
  case False
  then show ?thesis using copy_buffer_full_chunk [of b "Some e" rs ws 0 "[]"] assms
    by (simp add: io_copy_def full_writes_def del: copy_buffer.simps(2))
qed

theorem io_copy_read_error_witness:
  "ErrNetClosing \<noteq> EOF \<and> length [1, 2::byte] \<le> copy_buf_size \<and>
   io_copy [([1, 2], Some ErrNetClosing)] [(2, None)] = Some (2, Some ErrNetClosing, [1, 2])"
proof -
  have h: "ErrNetClosing \<noteq> EOF" "length [1, 2::byte] \<le> copy_buf_size" by (simp_all add: copy_buf_size_def)
  show ?thesis using io_copy_read_error [OF h, of "[]" "[]"] h by (simp add: full_writes_def del: copy_buffer.simps)
qed

text \<open>C18: \<open>io.Copy\<close> returns: when the source eventually reports an error (\<open>EOF\<close>
  included) and the destination answers every \<open>Write\<close>, the copy loop ends with a
  result; only a \<open>Read\<close> or \<open>Write\<close> that never returns keeps it running.\<close>

theorem io_copy_terminates:
  assumes "list_ex (\<lambda>(b, e). e \<noteq> None) rs" and "length (filter (\<lambda>(b, _). b \<noteq> []) rs) \<le> length ws"
  shows "\<exists>n e out. io_copy rs ws = Some (n, e, out)"
proof -
  obtain r where "copy_buffer rs ws 0 [] = Some r" using copy_buffer_returns [OF assms] by blast
  then show ?thesis by (cases r) (auto simp: io_copy_def)
qed

theorem io_copy_terminates_witness:
  "list_ex (\<lambda>(b, e). e \<noteq> None) [([1, 2::byte], None), ([], Some EOF)] \<and>
   length (filter (\<lambda>(b, _). b \<noteq> []) [([1, 2::byte], None), ([], Some EOF)]) \<le> length [(2::go_int, None :: io_error option)] \<and>
   (\<exists>n e out. io_copy [([1, 2], None), ([], Some EOF)] [(2, None)] = Some (n, e, out))"
proof -
  have h: "list_ex (\<lambda>(b, e). e \<noteq> None) [([1, 2::byte], None), ([], Some EOF)]"
    "length (filter (\<lambda>(b, _). b \<noteq> []) [([1, 2::byte], None), ([], Some EOF)]) \<le> length [(2::go_int, None :: io_error option)]"
    by simp_all
  show ?thesis using io_copy_terminates [OF h] h by blast
qed

end
