(* ===== verification/Relay.thy ===== *)
theory Relay
  imports System IoCopy
begin

text \<open>
  One relay worker, \<open>handleConnection\<close> (\<open>src/main.go\<close>, lines 86--113), with the two
  copy goroutines it starts (lines 101--109) and the buffered channel \<open>errChan\<close>
  (line 99, capacity 2).  The handler's program point and defer stack are the
  \<open>worker\<close> of theory \<open>System\<close>; \<open>rl_copies\<close> holds one program point per copy
  goroutine started (copying; about to send \<open>err\<close>; exited) and \<open>rl_chan\<close> the values
  buffered in \<open>errChan\<close>.  \<open>io.Copy\<close> ends at a moment the environment decides,
  with the error \<open>io_copy\<close> returns on some results of the connections' \<open>Read\<close> and
  \<open>Write\<close> calls (theory \<open>IoCopy\<close>); a send needs room
  in the buffer; the receive \<open><-errChan\<close> needs a value.  \<open>errChan := make(...)\<close> is
  part of the successful dial step, being a local allocation.  The deferred calls run
  as in theory \<open>System\<close>; their panic branch is omitted here since it is unreachable
  there (the invariant \<open>sys_inv\<close> keeps the counter non-negative).
\<close>

text \<open>A copy goroutine: inside \<open>io.Copy\<close>, at \<open>errChan <- err\<close>, or exited.\<close>

datatype copy_pc = CCopy | CSend "io_error option" | CExit

record relay =
  rl_srv :: tunnel_server
  rl_w :: worker
  rl_copies :: "copy_pc list"
  rl_chan :: "io_error option list"

definition errchan_cap :: nat where
  "errchan_cap = 2"

definition relay_init :: "tunnel_server \<Rightarrow> relay" where
  "relay_init ts = \<lparr>rl_srv = ts, rl_w = new_worker, rl_copies = [], rl_chan = []\<rparr>"

text \<open>One atomic action of the handler (dial, \<open>go\<close>, receive, deferred call) or of
  a copy goroutine (the end of \<open>io.Copy\<close>, the send).\<close>

inductive relay_step :: "relay \<Rightarrow> relay \<Rightarrow> bool" where
  relay_dial_fail:
    "w_pc (rl_w r) = WDial \<Longrightarrow> relay_step r (r\<lparr>rl_w := (rl_w r)\<lparr>w_pc := WReturn\<rparr>\<rparr>)"
| relay_dial_ok:
    "w_pc (rl_w r) = WDial \<Longrightarrow>
     relay_step r (r\<lparr>rl_w := (rl_w r)\<lparr>w_pc := WCopy, w_defers := DCloseLocal # w_defers (rl_w r),
                                     w_local_open := True\<rparr>, rl_chan := []\<rparr>)"
| relay_go:
    "w_pc (rl_w r) = WCopy \<Longrightarrow> length (rl_copies r) < 2 \<Longrightarrow>
     relay_step r (r\<lparr>rl_copies := rl_copies r @ [CCopy]\<rparr>)"
| relay_copy_end:
    "j < length (rl_copies r) \<Longrightarrow> rl_copies r ! j = CCopy \<Longrightarrow> io_copy rs ws = Some (n, err, out) \<Longrightarrow>
     relay_step r (r\<lparr>rl_copies := (rl_copies r)[j := CSend err]\<rparr>)"
| relay_send:
    "j < length (rl_copies r) \<Longrightarrow> rl_copies r ! j = CSend err \<Longrightarrow> length (rl_chan r) < errchan_cap \<Longrightarrow>
     relay_step r (r\<lparr>rl_copies := (rl_copies r)[j := CExit], rl_chan := rl_chan r @ [err]\<rparr>)"
| relay_recv:
    "w_pc (rl_w r) = WCopy \<Longrightarrow> length (rl_copies r) = 2 \<Longrightarrow> rl_chan r = err # rest \<Longrightarrow>
     relay_step r (r\<lparr>rl_w := (rl_w r)\<lparr>w_pc := WReturn\<rparr>, rl_chan := rest\<rparr>)"
| relay_defer:
    "w_pc (rl_w r) = WReturn \<Longrightarrow> w_defers (rl_w r) = d # ds \<Longrightarrow>
     run_defer d ((rl_w r)\<lparr>w_defers := ds\<rparr>) (rl_srv r) = Inr (w', ts') \<Longrightarrow>
     relay_step r (r\<lparr>rl_w := w', rl_srv := ts'\<rparr>)"

text \<open>A relay starts with \<open>go ts.handleConnection\<close>, after \<open>connections.Add(1)\<close>.\<close>

inductive relay_reach :: "relay \<Rightarrow> bool" where
  relay_reach_init: "1 \<le> wg_count ts \<Longrightarrow> relay_reach (relay_init ts)"
| relay_reach_step: "relay_reach r \<Longrightarrow> relay_step r r' \<Longrightarrow> relay_reach r'"

text \<open>The invariant of a relay and the measure that decreases along the schedule
  that completes it.\<close>

definition relay_finished :: "relay \<Rightarrow> bool" where
  "relay_finished r \<longleftrightarrow> w_pc (rl_w r) = WReturn \<and> w_defers (rl_w r) = [] \<and> list_all (\<lambda>c. c = CExit) (rl_copies r)"

definition received :: "relay \<Rightarrow> nat" where
  "received r = (if w_pc (rl_w r) = WReturn \<and> rl_copies r \<noteq> [] then 1 else 0)"

definition exited :: "copy_pc list \<Rightarrow> nat" where
  "exited cs = length (filter (\<lambda>c. c = CExit) cs)"

definition relay_inv :: "relay \<Rightarrow> bool" where
  "relay_inv r \<longleftrightarrow>
     worker_ok (rl_w r)
   \<and> length (rl_copies r) \<le> 2
   \<and> (w_pc (rl_w r) = WDial \<longrightarrow> rl_copies r = [] \<and> rl_chan r = [])
   \<and> (w_pc (rl_w r) = WReturn \<and> rl_copies r \<noteq> [] \<longrightarrow> length (rl_copies r) = 2)
   \<and> length (rl_chan r) + received r = exited (rl_copies r)
   \<and> (live (rl_w r) \<longrightarrow> 1 \<le> wg_count (rl_srv r))"

fun copy_weight :: "copy_pc \<Rightarrow> nat" where
  "copy_weight CCopy = 2"
| "copy_weight (CSend _) = 1"
| "copy_weight CExit = 0"

definition relay_measure :: "relay \<Rightarrow> nat" where
  "relay_measure r =
     (case w_pc (rl_w r) of WDial \<Rightarrow> 10 | WCopy \<Rightarrow> 1 + 3 * (2 - length (rl_copies r)) | WReturn \<Rightarrow> 0)
     + length (w_defers (rl_w r)) + sum_list (map copy_weight (rl_copies r))"

subsection \<open>The invariant of a relay, progress and completion\<close>

lemma count_update:
  "i < length xs \<Longrightarrow>
   int (length (filter P (xs[i := x]))) = int (length (filter P xs)) - of_bool (P (xs ! i)) + of_bool (P x)"
proof (induction xs arbitrary: i)
  case Nil
  then show ?case by simp
next
  case (Cons y ys)
  then show ?case by (cases i) auto
qed

lemma exited_update_keep:
  "i < length cs \<Longrightarrow> cs ! i \<noteq> CExit \<Longrightarrow> c \<noteq> CExit \<Longrightarrow> exited (cs[i := c]) = exited cs"
  using count_update [of i cs "\<lambda>c. c = CExit" c] by (simp add: exited_def)

lemma exited_update_exit:
  "i < length cs \<Longrightarrow> cs ! i \<noteq> CExit \<Longrightarrow> exited (cs[i := CExit]) = Suc (exited cs)"
  using count_update [of i cs "\<lambda>c. c = CExit" CExit] by (simp add: exited_def)

lemma run_defer_pc:
  "run_defer d w ts = Inr (w', ts') \<Longrightarrow> w_pc w' = w_pc w \<and> w_defers w' = w_defers w"
  by (cases d) (auto split: sum.splits)

lemma relay_init_inv: "1 \<le> wg_count ts \<Longrightarrow> relay_inv (relay_init ts)"
  using new_worker_ok
  by (simp add: relay_init_def relay_inv_def received_def exited_def new_worker_def)

lemma relay_step_inv: "relay_step r r' \<Longrightarrow> relay_inv r \<Longrightarrow> relay_inv r'"
proof (induction rule: relay_step.induct)
  case (relay_dial_fail r)
  then show ?case using dial_fail_ok [of "rl_w r"]
    by (simp add: relay_inv_def received_def exited_def)
next
  case (relay_dial_ok r)
  then show ?case using dial_ok_ok [of "rl_w r"]
    by (simp add: relay_inv_def received_def exited_def)
next
  case (relay_go r)
  then show ?case by (simp add: relay_inv_def received_def exited_def)
next
  case (relay_copy_end j r rs ws n err out)
  then show ?case using exited_update_keep [of j "rl_copies r" "CSend err"]
    by (simp add: relay_inv_def received_def)
next
  case (relay_send j r err)
  then show ?case using exited_update_exit [of j "rl_copies r"]
    by (auto simp: relay_inv_def received_def)
next
  case (relay_recv r err rest)
  then show ?case using copy_done_ok [of "rl_w r"]
    by (auto simp: relay_inv_def received_def)
next
  case (relay_defer r d ds w' ts')
  have ok: "worker_ok (rl_w r)" using relay_defer.prems by (simp add: relay_inv_def)
  note d = defer_ok [OF ok relay_defer.hyps]
  have pc: "w_pc w' = WReturn" using run_defer_pc [OF relay_defer.hyps(3)] relay_defer.hyps(1) by simp
  show ?case using relay_defer.prems d pc relay_defer.hyps(1)
    by (auto simp: relay_inv_def received_def split: if_splits)
qed

lemma relay_reach_inv: "relay_reach r \<Longrightarrow> relay_inv r"
  by (induction rule: relay_reach.induct) (auto intro: relay_init_inv relay_step_inv)

lemma exited_less: "j < length cs \<Longrightarrow> cs ! j \<noteq> CExit \<Longrightarrow> exited cs < length cs"
  unfolding exited_def by (rule length_filter_less) (auto dest: nth_mem)

lemma send_room:
  "relay_inv r \<Longrightarrow> j < length (rl_copies r) \<Longrightarrow> rl_copies r ! j \<noteq> CExit \<Longrightarrow>
   length (rl_chan r) < errchan_cap"
  using exited_less [of j "rl_copies r"] by (auto simp: relay_inv_def errchan_cap_def)

lemma weight_update:
  "j < length cs \<Longrightarrow>
   sum_list (map copy_weight (cs[j := c])) + copy_weight (cs ! j) = sum_list (map copy_weight cs) + copy_weight c"
proof (induction cs arbitrary: j)
  case Nil
  then show ?case by simp
next
  case (Cons x xs)
  then show ?case by (cases j) auto
qed

lemma copy_progress:
  assumes "relay_inv r" "j < length (rl_copies r)" "rl_copies r ! j \<noteq> CExit"
  shows "\<exists>r'. relay_step r r' \<and> relay_measure r' < relay_measure r"
proof (cases "rl_copies r ! j")
  case CCopy
  let ?r' = "r\<lparr>rl_copies := (rl_copies r)[j := CSend None]\<rparr>"
  have "io_copy [([], Some EOF)] [] = Some (0, None, [])" by (simp add: io_copy_def)
  then have "relay_step r ?r'" using assms(2) CCopy by (intro relay_copy_end)
  moreover have "relay_measure ?r' < relay_measure r"
    using weight_update [of j "rl_copies r" "CSend None"] assms(2) CCopy by (simp add: relay_measure_def split: worker_pc.split)
  ultimately show ?thesis by blast
next
  case (CSend e)
  let ?r' = "r\<lparr>rl_copies := (rl_copies r)[j := CExit], rl_chan := rl_chan r @ [e]\<rparr>"
  have "relay_step r ?r'" using assms(2) CSend send_room [OF assms] by (rule relay_send)
  moreover have "relay_measure ?r' < relay_measure r"
    using weight_update [of j "rl_copies r" CExit] assms(2) CSend by (simp add: relay_measure_def split: worker_pc.split)
  ultimately show ?thesis by blast
next
  case CExit
  then show ?thesis using assms(3) by simp
qed

lemma relay_progress:
  assumes inv: "relay_inv r" and nf: "\<not> relay_finished r"
  shows "\<exists>r'. relay_step r r' \<and> relay_measure r' < relay_measure r"
proof (cases "w_pc (rl_w r)")
  case WDial
  let ?r' = "r\<lparr>rl_w := (rl_w r)\<lparr>w_pc := WReturn\<rparr>\<rparr>"
  have "relay_step r ?r'" using WDial by (rule relay_dial_fail)
  moreover have "relay_measure ?r' < relay_measure r" using WDial by (simp add: relay_measure_def)
  ultimately show ?thesis by blast
next
  case WCopy
  show ?thesis
  proof (cases "length (rl_copies r) < 2")
    case True
    let ?r' = "r\<lparr>rl_copies := rl_copies r @ [CCopy]\<rparr>"
    have "relay_step r ?r'" using WCopy True by (rule relay_go)
    moreover have "relay_measure ?r' < relay_measure r" using WCopy True by (simp add: relay_measure_def)
    ultimately show ?thesis by blast
  next
    case False
    then have two: "length (rl_copies r) = 2" using inv by (simp add: relay_inv_def)
    show ?thesis
    proof (cases "rl_chan r")
      case (Cons e rest)
      let ?r' = "r\<lparr>rl_w := (rl_w r)\<lparr>w_pc := WReturn\<rparr>, rl_chan := rest\<rparr>"
      have "relay_step r ?r'" using WCopy two Cons by (rule relay_recv)
      moreover have "relay_measure ?r' < relay_measure r" using WCopy by (simp add: relay_measure_def)
      ultimately show ?thesis by blast
    next
      case Nil
      then have "exited (rl_copies r) = 0" using inv WCopy by (simp add: relay_inv_def received_def)
      then have "rl_copies r ! 0 \<noteq> CExit" using two by (auto simp: exited_def filter_empty_conv dest: nth_mem)
      then show ?thesis using copy_progress [OF inv, of 0] two by simp
    qed
  qed
next
  case WReturn
  show ?thesis
  proof (cases "w_defers (rl_w r)")
    case (Cons d ds)
    have ok: "worker_ok (rl_w r)" using inv by (simp add: relay_inv_def)
    have "live (rl_w r) \<longrightarrow> 1 \<le> wg_count (rl_srv r)" using inv by (simp add: relay_inv_def)
    then obtain w' ts' where rd: "run_defer d ((rl_w r)\<lparr>w_defers := ds\<rparr>) (rl_srv r) = Inr (w', ts')"
      using defer_panic [OF ok WReturn Cons] by (cases "run_defer d ((rl_w r)\<lparr>w_defers := ds\<rparr>) (rl_srv r)") force+
    let ?r' = "r\<lparr>rl_w := w', rl_srv := ts'\<rparr>"
    have "relay_step r ?r'" using WReturn Cons rd by (rule relay_defer)
    moreover have "relay_measure ?r' < relay_measure r"
      using run_defer_pc [OF rd] WReturn Cons by (simp add: relay_measure_def)
    ultimately show ?thesis by blast
  next
    case Nil
    then obtain j where "j < length (rl_copies r)" "rl_copies r ! j \<noteq> CExit"
      using nf WReturn by (auto simp: relay_finished_def list_all_length)
    then show ?thesis by (rule copy_progress [OF inv])
  qed
qed

lemma relay_inv_finish: "relay_inv r \<Longrightarrow> \<exists>r'. relay_step\<^sup>*\<^sup>* r r' \<and> relay_finished r'"
proof (induction "relay_measure r" arbitrary: r rule: less_induct)
  case less
  show ?case
  proof (cases "relay_finished r")
    case True
    then show ?thesis by blast
  next
    case False
    then obtain r' where st: "relay_step r r'" and lt: "relay_measure r' < relay_measure r"
      using relay_progress [OF less.prems] by blast
    have "relay_inv r'" using st less.prems by (rule relay_step_inv)
    then obtain r'' where "relay_step\<^sup>*\<^sup>* r' r''" "relay_finished r''" using less.hyps [OF lt] by blast
    then show ?thesis using st by (blast intro: converse_rtranclp_into_rtranclp)
  qed
qed

text \<open>The relay model and the worker of the system model agree: every step of a
  relay either leaves the worker and the server unchanged (the \<open>go\<close> statements, the
  copies, the sends) or is a step of \<open>System.step\<close> for that worker.\<close>

lemma relay_refines_worker:
  assumes st: "relay_step r r'" and i: "i < length (workers s)" and w: "workers s ! i = rl_w r"
    and ts: "srv s = rl_srv r" and a: "alive s"
  shows "(rl_w r' = rl_w r \<and> rl_srv r' = rl_srv r) \<or> step s ((set_worker s i (rl_w r'))\<lparr>srv := rl_srv r'\<rparr>)"
  using st
proof cases
  case relay_dial_fail
  then show ?thesis using worker_dial_fail [OF i _ a] w ts [symmetric] by (simp add: set_worker_def)
next
  case relay_dial_ok
  then show ?thesis using worker_dial_ok [OF i _ a] w ts [symmetric] by (simp add: set_worker_def)
next
  case (relay_recv err rest)
  then show ?thesis using worker_copy_done [OF i _ a] w ts [symmetric] by (simp add: set_worker_def)
next
  case (relay_defer d ds w' ts')
  then show ?thesis using worker_defer [OF i _ a, of d ds w' ts'] w ts by simp
qed auto

lemma relay_demo_sending:
  "relay_reach \<lparr>rl_srv = (new_tunnel_server 3000)\<lparr>wg_count := 1\<rparr>, rl_w = \<lparr>w_pc = WCopy, w_defers = [DCloseLocal, DClosePublic, DDone], w_public_open = True, w_local_open = True\<rparr>, rl_copies = [CSend None, CCopy], rl_chan = []\<rparr>"
proof -
  let ?ts = "(new_tunnel_server 3000)\<lparr>wg_count := 1\<rparr>"
  let ?w = "\<lparr>w_pc = WCopy, w_defers = [DCloseLocal, DClosePublic, DDone], w_public_open = True, w_local_open = True\<rparr>"
  have r0: "relay_reach (relay_init ?ts)" by (rule relay_reach_init) simp
  have "relay_step (relay_init ?ts) \<lparr>rl_srv = ?ts, rl_w = ?w, rl_copies = [], rl_chan = []\<rparr>"
    using relay_dial_ok [of "relay_init ?ts"] by (simp add: relay_init_def new_worker_def)
  then have r1: "relay_reach \<lparr>rl_srv = ?ts, rl_w = ?w, rl_copies = [], rl_chan = []\<rparr>"
    using r0 by (rule relay_reach_step [rotated])
  have "relay_step \<lparr>rl_srv = ?ts, rl_w = ?w, rl_copies = [], rl_chan = []\<rparr>
                   \<lparr>rl_srv = ?ts, rl_w = ?w, rl_copies = [CCopy], rl_chan = []\<rparr>"
    using relay_go [of "\<lparr>rl_srv = ?ts, rl_w = ?w, rl_copies = [], rl_chan = []\<rparr>"] by simp
  then have r2: "relay_reach \<lparr>rl_srv = ?ts, rl_w = ?w, rl_copies = [CCopy], rl_chan = []\<rparr>"
    using r1 by (rule relay_reach_step [rotated])
  have "relay_step \<lparr>rl_srv = ?ts, rl_w = ?w, rl_copies = [CCopy], rl_chan = []\<rparr>
                   \<lparr>rl_srv = ?ts, rl_w = ?w, rl_copies = [CCopy, CCopy], rl_chan = []\<rparr>"
    using relay_go [of "\<lparr>rl_srv = ?ts, rl_w = ?w, rl_copies = [CCopy], rl_chan = []\<rparr>"] by simp
  then have r3: "relay_reach \<lparr>rl_srv = ?ts, rl_w = ?w, rl_copies = [CCopy, CCopy], rl_chan = []\<rparr>"
    using r2 by (rule relay_reach_step [rotated])
  have "relay_step \<lparr>rl_srv = ?ts, rl_w = ?w, rl_copies = [CCopy, CCopy], rl_chan = []\<rparr>
                   \<lparr>rl_srv = ?ts, rl_w = ?w, rl_copies = [CSend None, CCopy], rl_chan = []\<rparr>"
    using relay_copy_end [of 0 "\<lparr>rl_srv = ?ts, rl_w = ?w, rl_copies = [CCopy, CCopy], rl_chan = []\<rparr>"
        "[([], Some EOF)]" "[]" 0 None "[]"]
    by (simp add: io_copy_def)
  then show ?thesis using r3 by (rule relay_reach_step [rotated])
qed

lemma relay_demo_reach:
  "relay_reach \<lparr>rl_srv = (new_tunnel_server 3000)\<lparr>wg_count := 0\<rparr>,
      rl_w = \<lparr>w_pc = WReturn, w_defers = [], w_public_open = False, w_local_open = False\<rparr>, rl_copies = [CExit, CCopy], rl_chan = []\<rparr>"
proof -
  let ?ts = "(new_tunnel_server 3000)\<lparr>wg_count := 1\<rparr>"
  let ?w = "\<lparr>w_pc = WCopy, w_defers = [DCloseLocal, DClosePublic, DDone], w_public_open = True, w_local_open = True\<rparr>"
  have r4: "relay_reach \<lparr>rl_srv = ?ts, rl_w = ?w, rl_copies = [CSend None, CCopy], rl_chan = []\<rparr>"
    by (rule relay_demo_sending)
  have "relay_step \<lparr>rl_srv = ?ts, rl_w = ?w, rl_copies = [CSend None, CCopy], rl_chan = []\<rparr>
                   \<lparr>rl_srv = ?ts, rl_w = ?w, rl_copies = [CExit, CCopy], rl_chan = [None]\<rparr>"
    using relay_send [of 0 "\<lparr>rl_srv = ?ts, rl_w = ?w, rl_copies = [CSend None, CCopy], rl_chan = []\<rparr>" None]
    by (simp add: errchan_cap_def)
  then have r5: "relay_reach \<lparr>rl_srv = ?ts, rl_w = ?w, rl_copies = [CExit, CCopy], rl_chan = [None]\<rparr>"
    using r4 by (rule relay_reach_step [rotated])
  have "relay_step \<lparr>rl_srv = ?ts, rl_w = ?w, rl_copies = [CExit, CCopy], rl_chan = [None]\<rparr>
                   \<lparr>rl_srv = ?ts, rl_w = \<lparr>w_pc = WReturn, w_defers = [DCloseLocal, DClosePublic, DDone], w_public_open = True, w_local_open = True\<rparr>, rl_copies = [CExit, CCopy], rl_chan = []\<rparr>"
    using relay_recv [of "\<lparr>rl_srv = ?ts, rl_w = ?w, rl_copies = [CExit, CCopy], rl_chan = [None]\<rparr>" None "[]"]
    by simp
  then have r6: "relay_reach \<lparr>rl_srv = ?ts, rl_w = \<lparr>w_pc = WReturn, w_defers = [DCloseLocal, DClosePublic, DDone], w_public_open = True, w_local_open = True\<rparr>, rl_copies = [CExit, CCopy], rl_chan = []\<rparr>"
    using r5 by (rule relay_reach_step [rotated])
  have "relay_step \<lparr>rl_srv = ?ts, rl_w = \<lparr>w_pc = WReturn, w_defers = [DCloseLocal, DClosePublic, DDone], w_public_open = True, w_local_open = True\<rparr>, rl_copies = [CExit, CCopy], rl_chan = []\<rparr>
                   \<lparr>rl_srv = ?ts, rl_w = \<lparr>w_pc = WReturn, w_defers = [DClosePublic, DDone], w_public_open = True, w_local_open = False\<rparr>, rl_copies = [CExit, CCopy], rl_chan = []\<rparr>"
    using relay_defer [of "\<lparr>rl_srv = ?ts, rl_w = \<lparr>w_pc = WReturn, w_defers = [DCloseLocal, DClosePublic, DDone], w_public_open = True, w_local_open = True\<rparr>, rl_copies = [CExit, CCopy], rl_chan = []\<rparr>"
        DCloseLocal "[DClosePublic, DDone]"] by simp
  then have r7: "relay_reach \<lparr>rl_srv = ?ts, rl_w = \<lparr>w_pc = WReturn, w_defers = [DClosePublic, DDone], w_public_open = True, w_local_open = False\<rparr>, rl_copies = [CExit, CCopy], rl_chan = []\<rparr>"
    using r6 by (rule relay_reach_step [rotated])
  have "relay_step \<lparr>rl_srv = ?ts, rl_w = \<lparr>w_pc = WReturn, w_defers = [DClosePublic, DDone], w_public_open = True, w_local_open = False\<rparr>, rl_copies = [CExit, CCopy], rl_chan = []\<rparr>
                   \<lparr>rl_srv = ?ts, rl_w = \<lparr>w_pc = WReturn, w_defers = [DDone], w_public_open = False, w_local_open = False\<rparr>, rl_copies = [CExit, CCopy], rl_chan = []\<rparr>"
    using relay_defer [of "\<lparr>rl_srv = ?ts, rl_w = \<lparr>w_pc = WReturn, w_defers = [DClosePublic, DDone], w_public_open = True, w_local_open = False\<rparr>, rl_copies = [CExit, CCopy], rl_chan = []\<rparr>"
        DClosePublic "[DDone]"] by simp
  then have r8: "relay_reach \<lparr>rl_srv = ?ts, rl_w = \<lparr>w_pc = WReturn, w_defers = [DDone], w_public_open = False, w_local_open = False\<rparr>, rl_copies = [CExit, CCopy], rl_chan = []\<rparr>"
    using r7 by (rule relay_reach_step [rotated])
  have "relay_step \<lparr>rl_srv = ?ts, rl_w = \<lparr>w_pc = WReturn, w_defers = [DDone], w_public_open = False, w_local_open = False\<rparr>, rl_copies = [CExit, CCopy], rl_chan = []\<rparr>
                   \<lparr>rl_srv = (new_tunnel_server 3000)\<lparr>wg_count := 0\<rparr>, rl_w = \<lparr>w_pc = WReturn, w_defers = [], w_public_open = False, w_local_open = False\<rparr>, rl_copies = [CExit, CCopy], rl_chan = []\<rparr>"
    using relay_defer [of "\<lparr>rl_srv = ?ts, rl_w = \<lparr>w_pc = WReturn, w_defers = [DDone], w_public_open = False, w_local_open = False\<rparr>, rl_copies = [CExit, CCopy], rl_chan = []\<rparr>"
        DDone "[]"] by (simp add: wg_add_def)
  then show ?thesis using r8 by (rule relay_reach_step [rotated])
qed

subsection \<open>Properties of a relay\<close>

text \<open>C5: the buffer of two slots of \<open>errChan\<close> is large enough: in every run of
  \<open>handleConnection\<close>, a copy goroutine that has finished its \<open>io.Copy\<close> finds room to
  send its result, so no copy goroutine ever blocks on \<open>errChan <- err\<close>, even after
  the handler has stopped receiving.\<close>

theorem relay_send_never_blocks:
  "relay_reach r \<Longrightarrow> j < length (rl_copies r) \<Longrightarrow> rl_copies r ! j = CSend e \<Longrightarrow>
   length (rl_chan r) < errchan_cap"
  by (rule send_room) (auto dest: relay_reach_inv)

theorem relay_send_never_blocks_witness:
  "relay_reach \<lparr>rl_srv = (new_tunnel_server 3000)\<lparr>wg_count := 1\<rparr>, rl_w = \<lparr>w_pc = WCopy, w_defers = [DCloseLocal, DClosePublic, DDone], w_public_open = True, w_local_open = True\<rparr>, rl_copies = [CSend None, CCopy], rl_chan = []\<rparr> \<and> 0 < length (rl_copies \<lparr>rl_srv = (new_tunnel_server 3000)\<lparr>wg_count := 1\<rparr>, rl_w = \<lparr>w_pc = WCopy, w_defers = [DCloseLocal, DClosePublic, DDone], w_public_open = True, w_local_open = True\<rparr>, rl_copies = [CSend None, CCopy], rl_chan = []\<rparr>) \<and> rl_copies \<lparr>rl_srv = (new_tunnel_server 3000)\<lparr>wg_count := 1\<rparr>, rl_w = \<lparr>w_pc = WCopy, w_defers = [DCloseLocal, DClosePublic, DDone], w_public_open = True, w_local_open = True\<rparr>, rl_copies = [CSend None, CCopy], rl_chan = []\<rparr> ! 0 = CSend None \<and>
   length (rl_chan \<lparr>rl_srv = (new_tunnel_server 3000)\<lparr>wg_count := 1\<rparr>, rl_w = \<lparr>w_pc = WCopy, w_defers = [DCloseLocal, DClosePublic, DDone], w_public_open = True, w_local_open = True\<rparr>, rl_copies = [CSend None, CCopy], rl_chan = []\<rparr>) < errchan_cap"
  using relay_send_never_blocks [OF relay_demo_sending, of 0 None] relay_demo_sending by simp

text \<open>C6: \<open>handleConnection\<close> cannot deadlock: from every state of a relay, whatever
  happened so far, some schedule runs it to completion: the handler has returned and run
  all its deferred calls, and both copy goroutines have sent their result and exited.\<close>

theorem relay_always_completes:
  "relay_reach r \<Longrightarrow> \<exists>r'. relay_step\<^sup>*\<^sup>* r r' \<and> relay_finished r'"
  by (rule relay_inv_finish) (rule relay_reach_inv)

theorem relay_always_completes_witness:
  "relay_reach (relay_init ((new_tunnel_server 3000)\<lparr>wg_count := 1\<rparr>)) \<and>
   (\<exists>r'. relay_step\<^sup>*\<^sup>* (relay_init ((new_tunnel_server 3000)\<lparr>wg_count := 1\<rparr>)) r' \<and> relay_finished r')"
proof -
  have r: "relay_reach (relay_init ((new_tunnel_server 3000)\<lparr>wg_count := 1\<rparr>))" by (rule relay_reach_init) simp
  show ?thesis using relay_always_completes [OF r] r by blast
qed

text \<open>C16: \<open>handleConnection\<close> returns, and runs \<open>connections.Done()\<close>, when the first
  of its two copies ends: a relay is no longer counted while its other copy goroutine
  is still running, so \<open>Stop\<close> can return before both directions have terminated.\<close>

theorem relay_done_before_copies_exit:
  "\<exists>r. relay_reach r \<and> \<not> live (rl_w r) \<and> CCopy \<in> set (rl_copies r)"
  using relay_demo_reach by (fastforce simp: live_def)

end
