(* ===== verification/Shutdown.thy ===== *)
theory Shutdown
  imports System
begin

text \<open>
  Liveness of the Shutdown Coordinator (\<open>Stop\<close>, \<open>src/main.go\<close> lines 115--119) in
  the process model of theory \<open>System\<close>: while \<open>main\<close> waits for the WaitGroup, the
  measure \<open>drain_measure\<close> (the work left to each relay, plus the accept loop's
  pending \<open>go\<close> statement) decreases along a schedule that reaches a zero counter.
  The schedule uses only relay steps (a dial, the end of a relay's copy, the deferred
  calls) and the accept loop's pending \<open>go\<close> statement; it needs no new connection.
\<close>

definition worker_measure :: "worker \<Rightarrow> nat" where
  "worker_measure w =
     (case w_pc w of WDial \<Rightarrow> 10 | WCopy \<Rightarrow> 1 | WReturn \<Rightarrow> 0) + length (w_defers w)"

definition accept_measure :: "accept_pc \<Rightarrow> nat" where
  "accept_measure a = (if a = AAdded then 20 else 0)"

definition drain_measure :: "sys \<Rightarrow> nat" where
  "drain_measure s = accept_measure (acc s) + sum_list (map worker_measure (workers s))"

lemma worker_measure_update:
  "i < length ws \<Longrightarrow>
   sum_list (map worker_measure (ws[i := w])) + worker_measure (ws ! i) =
   sum_list (map worker_measure ws) + worker_measure w"
proof (induction ws arbitrary: i)
  case Nil
  then show ?case by simp
next
  case (Cons x xs)
  then show ?case by (cases i) auto
qed

lemma worker_progress:
  assumes inv: "sys_inv s" and m: "mpc s = MStopWait" and i: "i < length (workers s)"
    and l: "live (workers s ! i)"
  shows "\<exists>t. step s t \<and> mpc t = MStopWait \<and> drain_measure t < drain_measure s"
proof -
  let ?w = "workers s ! i"
  have a: "alive s" using inv m by (simp add: sys_inv_def alive_def)
  have ok: "worker_ok ?w" using inv i by (simp add: sys_inv_def worker_ok_nth)
  have upd: "\<And>w'. drain_measure (set_worker s i w') + worker_measure ?w = drain_measure s + worker_measure w'"
    using worker_measure_update [OF i] by (simp add: drain_measure_def set_worker_def)
  show ?thesis
  proof (cases "w_pc ?w")
    case WDial
    let ?t = "set_worker s i (?w\<lparr>w_pc := WReturn\<rparr>)"
    have "step s ?t" using i WDial a by (rule worker_dial_fail)
    moreover have "drain_measure ?t < drain_measure s"
      using upd [of "?w\<lparr>w_pc := WReturn\<rparr>"] WDial by (simp add: worker_measure_def)
    ultimately show ?thesis using m by (auto simp: set_worker_def)
  next
    case WCopy
    let ?t = "set_worker s i (?w\<lparr>w_pc := WReturn\<rparr>)"
    have "step s ?t" using i WCopy a by (rule worker_copy_done)
    moreover have "drain_measure ?t < drain_measure s"
      using upd [of "?w\<lparr>w_pc := WReturn\<rparr>"] WCopy by (simp add: worker_measure_def)
    ultimately show ?thesis using m by (auto simp: set_worker_def)
  next
    case WReturn
    obtain d ds where ds: "w_defers ?w = d # ds" using l by (cases "w_defers ?w") (auto simp: live_def)
    have "0 < live_count (workers s)" using l i by (rule live_count_pos)
    then have "1 \<le> wg_count (srv s)" using inv by (simp add: sys_inv_def pending_add_def)
    then obtain w' ts' where rd: "run_defer d (?w\<lparr>w_defers := ds\<rparr>) (srv s) = Inr (w', ts')"
      using defer_panic [OF ok WReturn ds] by (cases "run_defer d (?w\<lparr>w_defers := ds\<rparr>) (srv s)") force+
    let ?t = "(set_worker s i w')\<lparr>srv := ts'\<rparr>"
    have "step s ?t" using i WReturn a ds rd by (rule worker_defer)
    moreover have "w_pc w' = WReturn \<and> w_defers w' = ds"
      using rd WReturn by (cases d) (auto split: sum.splits)
    then have "drain_measure ?t < drain_measure s"
      using upd [of w'] WReturn ds by (simp add: worker_measure_def drain_measure_def set_worker_def)
    ultimately show ?thesis using m by (auto simp: set_worker_def)
  qed
qed

lemma live_worker_exists:
  "0 < live_count ws \<Longrightarrow> \<exists>i < length ws. live (ws ! i)"
  by (auto simp: live_count_def filter_empty_conv in_set_conv_nth)

lemma drain_progress:
  assumes inv: "sys_inv s" and m: "mpc s = MStopWait" and wg: "wg_count (srv s) \<noteq> 0"
  shows "\<exists>t. step s t \<and> mpc t = MStopWait \<and> drain_measure t < drain_measure s"
proof (cases "acc s = AAdded")
  case True
  let ?t = "s\<lparr>workers := workers s @ [new_worker], acc := ASelect\<rparr>"
  have a: "alive s" using inv m by (simp add: sys_inv_def alive_def)
  have "step s ?t" using True a by (rule accept_go)
  moreover have "drain_measure ?t < drain_measure s"
    using True by (simp add: drain_measure_def accept_measure_def worker_measure_def new_worker_def)
  ultimately show ?thesis using m by auto
next
  case False
  then have "0 < live_count (workers s)" using inv wg by (simp add: sys_inv_def pending_add_def)
  then obtain i where "i < length (workers s)" "live (workers s ! i)" using live_worker_exists by blast
  then show ?thesis using worker_progress [OF inv m] by blast
qed

subsection \<open>Stop can always return\<close>

text \<open>C4: \<open>Stop\<close> cannot deadlock: from every reachable state in which \<open>main\<close> waits
  in \<open>connections.Wait()\<close>, some schedule of the goroutines lets the counter reach
  zero and \<open>main\<close> return: the accept loop's pending \<open>go handleConnection\<close> is
  started, and every relay, counted or not, can reach its deferred \<open>Done\<close>.\<close>

theorem stop_can_return:
  "reach lp s \<Longrightarrow> mpc s = MStopWait \<Longrightarrow> \<exists>t. step\<^sup>*\<^sup>* s t \<and> mpc t = MExited"
proof (induction "drain_measure s" arbitrary: s rule: less_induct)
  case less
  have inv: "sys_inv s" using less.prems(1) by (rule reach_inv)
  show ?case
  proof (cases "wg_count (srv s) = 0")
    case True
    have "alive s" using inv less.prems(2) by (simp add: sys_inv_def alive_def)
    then have "step s (s\<lparr>mpc := MExited\<rparr>)" using less.prems(2) True by (intro main_wait_done)
    then have "step\<^sup>*\<^sup>* s (s\<lparr>mpc := MExited\<rparr>)" by (rule r_into_rtranclp)
    then show ?thesis by (intro exI [of _ "s\<lparr>mpc := MExited\<rparr>"]) simp
  next
    case False
    then obtain t where st: "step s t" and m: "mpc t = MStopWait" and lt: "drain_measure t < drain_measure s"
      using drain_progress [OF inv less.prems(2)] by blast
    have "reach lp t" using less.prems(1) st by (rule reach_step)
    then obtain u where "step\<^sup>*\<^sup>* t u" "mpc u = MExited" using less.hyps [OF lt] m by blast
    then show ?thesis using st by (blast intro: converse_rtranclp_into_rtranclp)
  qed
qed

theorem stop_can_return_witness:
  "reach 3000 ((init_sys 3000)\<lparr>srv := (new_tunnel_server 3000)\<lparr>public_port := 40000, stop_closed := True, wg_count := 1\<rparr>,
        lis := LOpen, acc := ASelect, mpc := MStopWait, workers := [new_worker]\<rparr>) \<and> mpc ((init_sys 3000)\<lparr>srv := (new_tunnel_server 3000)\<lparr>public_port := 40000, stop_closed := True, wg_count := 1\<rparr>,
        lis := LOpen, acc := ASelect, mpc := MStopWait, workers := [new_worker]\<rparr>) = MStopWait \<and> (\<exists>t. step\<^sup>*\<^sup>* ((init_sys 3000)\<lparr>srv := (new_tunnel_server 3000)\<lparr>public_port := 40000, stop_closed := True, wg_count := 1\<rparr>,
        lis := LOpen, acc := ASelect, mpc := MStopWait, workers := [new_worker]\<rparr>) t \<and> mpc t = MExited)"
proof -
  have m: "mpc ((init_sys 3000)\<lparr>srv := (new_tunnel_server 3000)\<lparr>public_port := 40000, stop_closed := True, wg_count := 1\<rparr>,
        lis := LOpen, acc := ASelect, mpc := MStopWait, workers := [new_worker]\<rparr>) = MStopWait" by (simp add: init_sys_def)
  show ?thesis using stop_can_return [OF demo_reach_relay m] demo_reach_relay m by blast
qed

end
