(* ===== verification/WaitGroup.thy ===== *)
theory WaitGroup
  imports Tunnel
begin

text \<open>The \<open>sync.WaitGroup\<close> that \<open>TunnelServer.connections\<close> is
  (\<open>src/main.go\<close>: \<open>Add(1)\<close> in \<open>Start\<close>'s accept loop, the deferred \<open>Done()\<close> of
  \<open>handleConnection\<close>, \<open>Wait()\<close> in \<open>Stop\<close>), at the level of its implementation
  in the Go runtime: the 64-bit \<open>state\<close> word holds the \<open>int32\<close> counter in its
  high half and the number of blocked waiters in its low half, and \<open>sema\<close> is the
  semaphore the waiters sleep on.  \<open>wg_add_go\<close> is the atomic add of \<open>Add\<close> with its
  panic checks; \<open>Done\<close> is \<open>Add(-1)\<close>.  \<open>wg_step\<close> interleaves goroutines,
  each at a program point of \<open>Add\<close> or \<open>Wait\<close> (\<open>wg_thread\<close>), one atomic
  operation per step: \<open>Add\<close>'s re-load and reset of the state when it releases the
  waiters, and \<open>Wait\<close>'s load, compare-and-swap, sleep and check after waking.

  The lemmas show that, with no waiter, the packed counter refines the integer
  counter \<open>wg_count\<close> of the process model; that the counter overflows
  at \<open>2^31 - 1\<close>; and two interleavings in which an \<open>Add(1)\<close> racing with a
  blocked \<open>Wait\<close> crashes the process.\<close>

unbundle bit_operations_syntax

datatype wg_panic = NegativeCounter | AddConcurrentWithWait | ReusedBeforeWaitReturned

datatype wg_thread =
    TAdd int
  | TAddReset "64 word"
  | TAddStore nat
  | TWaitLoad
  | TWaitCas "64 word"
  | TWaitSleep
  | TWaitCheck
  | TDone
  | TPanic wg_panic

record waitgroup =
  wg_state :: "64 word"
  wg_sema :: nat

definition wg_counter :: "64 word \<Rightarrow> 32 word" where
  "wg_counter st = ucast (drop_bit 32 st)"

definition wg_waiters :: "64 word \<Rightarrow> 32 word" where
  "wg_waiters st = ucast st"

definition wg_encode :: "int \<Rightarrow> nat \<Rightarrow> 64 word" where
  "wg_encode v w = push_bit 32 (word_of_int v) OR word_of_nat w"

definition wg_add_go :: "64 word \<Rightarrow> int \<Rightarrow> 64 word \<times> wg_thread" where
  "wg_add_go st delta =
     (let st' = st + push_bit 32 (word_of_int delta);
          v = sint (wg_counter st');
          w = wg_waiters st'
      in (st',
          if v < 0 then TPanic NegativeCounter
          else if w \<noteq> 0 \<and> 0 < delta \<and> v = sint (word_of_int delta :: 32 word) then TPanic AddConcurrentWithWait
          else if 0 < v \<or> w = 0 then TDone
          else TAddReset st'))"

inductive wg_step :: "waitgroup \<times> wg_thread list \<Rightarrow> waitgroup \<times> wg_thread list \<Rightarrow> bool" where
  wg_add:
    "i < length ts \<Longrightarrow> ts ! i = TAdd d \<Longrightarrow> wg_add_go (wg_state g) d = (st', t') \<Longrightarrow>
     wg_step (g, ts) (g\<lparr>wg_state := st'\<rparr>, ts[i := t'])"
| wg_add_reset:
    "i < length ts \<Longrightarrow> ts ! i = TAddReset s \<Longrightarrow> wg_state g = s \<Longrightarrow>
     wg_step (g, ts) (g, ts[i := TAddStore (unat (wg_waiters s))])"
| wg_add_reset_panic:
    "i < length ts \<Longrightarrow> ts ! i = TAddReset s \<Longrightarrow> wg_state g \<noteq> s \<Longrightarrow>
     wg_step (g, ts) (g, ts[i := TPanic AddConcurrentWithWait])"
| wg_add_store:
    "i < length ts \<Longrightarrow> ts ! i = TAddStore w \<Longrightarrow>
     wg_step (g, ts) (\<lparr>wg_state = 0, wg_sema = wg_sema g + w\<rparr>, ts[i := TDone])"
| wg_wait_load:
    "i < length ts \<Longrightarrow> ts ! i = TWaitLoad \<Longrightarrow>
     wg_step (g, ts) (g, ts[i := if wg_counter (wg_state g) = 0 then TDone else TWaitCas (wg_state g)])"
| wg_wait_cas:
    "i < length ts \<Longrightarrow> ts ! i = TWaitCas s \<Longrightarrow>
     wg_step (g, ts) (if wg_state g = s then (g\<lparr>wg_state := s + 1\<rparr>, ts[i := TWaitSleep])
                      else (g, ts[i := TWaitLoad]))"
| wg_wait_wake:
    "i < length ts \<Longrightarrow> ts ! i = TWaitSleep \<Longrightarrow> 0 < wg_sema g \<Longrightarrow>
     wg_step (g, ts) (g\<lparr>wg_sema := wg_sema g - 1\<rparr>, ts[i := TWaitCheck])"
| wg_wait_check:
    "i < length ts \<Longrightarrow> ts ! i = TWaitCheck \<Longrightarrow>
     wg_step (g, ts) (g, ts[i := if wg_state g \<noteq> 0 then TPanic ReusedBeforeWaitReturned else TDone])"

lemma sint_word_of_int_32: "- (2 ^ 31) \<le> x \<Longrightarrow> x < 2 ^ 31 \<Longrightarrow> sint (word_of_int x :: 32 word) = x"
  by (simp add: signed_of_int signed_take_bit_int_eq_self)

lemma wg_counter_encode: "w < 2 ^ 32 \<Longrightarrow> wg_counter (wg_encode v w) = word_of_int v"
proof -
  assume w: "w < 2 ^ 32"
  then have t: "take_bit 32 w = w" by (simp add: take_bit_nat_eq_self_iff)
  have nb: "\<not> bit w (32 + n)" for n
    by (subst t [symmetric]) (simp add: bit_take_bit_iff)
  show ?thesis
    unfolding wg_counter_def wg_encode_def
    by (rule bit_word_eqI) (auto simp: bit_simps nb)
qed

lemma wg_waiters_encode: "wg_waiters (wg_encode v w) = word_of_nat w"
  unfolding wg_waiters_def wg_encode_def
  by (rule bit_word_eqI) (auto simp: bit_simps)

lemma wg_encode_add: "wg_encode v 0 + push_bit 32 (word_of_int d) = wg_encode (v + d) 0"
  by (simp add: wg_encode_def push_bit_add)

lemma wg_add_go_encode:
  "wg_add_go (wg_encode v 0) d =
     (wg_encode (v + d) 0, if sint (wg_counter (wg_encode (v + d) 0)) < 0 then TPanic NegativeCounter else TDone)"
  unfolding wg_add_go_def Let_def wg_encode_add by (simp add: wg_waiters_encode)

lemma wg_add_go_no_waiters:
  assumes "- (2 ^ 31) \<le> v + d" and "v + d < 2 ^ 31"
  shows "wg_add_go (wg_encode v 0) d = (wg_encode (v + d) 0, if v + d < 0 then TPanic NegativeCounter else TDone)"
  using wg_counter_encode [of 0 "v + d"] sint_word_of_int_32 [OF assms] by (simp add: wg_add_go_encode)

lemma wg_step_to: "wg_step a b \<Longrightarrow> b = c \<Longrightarrow> wg_step a c"
  by simp

lemma wg_step_add_to:
  "i < length ts \<Longrightarrow> ts ! i = TAdd d \<Longrightarrow> wg_state g = s \<Longrightarrow> wg_add_go s d = (st', t') \<Longrightarrow>
   g' = g\<lparr>wg_state := st'\<rparr> \<Longrightarrow> ts' = ts[i := t'] \<Longrightarrow> wg_step (g, ts) (g', ts')"
  using wg_step.wg_add by blast

lemma wg_waiters_one: "unat (wg_waiters 1) = 1"
  by code_simp

lemma wg_counter_one_zero: "wg_counter (wg_encode 1 0) \<noteq> 0"
  using wg_counter_encode [of 0 1] by simp

lemma wg_add_during_wait_prefix:
  "wg_step\<^sup>*\<^sup>* (\<lparr>wg_state = wg_encode 1 0, wg_sema = 0\<rparr>, [TWaitLoad, TAdd (- 1), TAdd 1])
     (\<lparr>wg_state = 1, wg_sema = 0\<rparr>, [TWaitSleep, TAddReset 1, TAdd 1])"
proof -
  let ?g = "\<lparr>wg_state = wg_encode 1 0, wg_sema = 0\<rparr>"
  have s1: "wg_step (?g, [TWaitLoad, TAdd (- 1), TAdd 1]) (?g, [TWaitCas (wg_encode 1 0), TAdd (- 1), TAdd 1])"
    by (rule wg_step_to [OF wg_step.wg_wait_load [where i = 0]]) (simp_all add: wg_counter_one_zero)
  have s2: "wg_step (?g, [TWaitCas (wg_encode 1 0), TAdd (- 1), TAdd 1])
              (\<lparr>wg_state = wg_encode 1 0 + 1, wg_sema = 0\<rparr>, [TWaitSleep, TAdd (- 1), TAdd 1])"
    by (rule wg_step_to [OF wg_step.wg_wait_cas [where i = 0]]) auto
  have e: "wg_add_go (wg_encode 1 0 + 1) (- 1) = (1, TAddReset 1)" by code_simp
  have s3: "wg_step (\<lparr>wg_state = wg_encode 1 0 + 1, wg_sema = 0\<rparr>, [TWaitSleep, TAdd (- 1), TAdd 1])
              (\<lparr>wg_state = 1, wg_sema = 0\<rparr>, [TWaitSleep, TAddReset 1, TAdd 1])"
    by (rule wg_step_add_to [where i = 1, OF _ _ _ e]) simp_all
  show ?thesis using s1 s2 s3 by (meson rtranclp.rtrancl_refl rtranclp.rtrancl_into_rtrancl)
qed

subsection \<open>Properties of the WaitGroup\<close>

text \<open>C14: with no goroutine waiting and the counter within \<open>int32\<close>, Go's
  \<open>WaitGroup.Add\<close> on its packed 64-bit state does exactly what the counter
  \<open>wg_add\<close> of the process model does: the same new counter, and the negative-counter
  panic in the same cases.\<close>

theorem wg_add_refines:
  assumes "0 \<le> wg_count ts" and "wg_count ts + d < 2 ^ 31" and "- (2 ^ 31) \<le> d"
  shows "wg_add_go (wg_encode (wg_count ts) 0) d =
    (case wg_add d ts of
       Inl p \<Rightarrow> (wg_encode (wg_count ts + d) 0, TPanic NegativeCounter)
     | Inr ts' \<Rightarrow> (wg_encode (wg_count ts') 0, TDone))"
proof -
  have "- (2 ^ 31) \<le> wg_count ts + d" using assms(1,3) by simp
  then show ?thesis using wg_add_go_no_waiters [OF _ assms(2)] by (simp add: wg_add_def)
qed

theorem wg_add_refines_witness:
  "0 \<le> wg_count (new_tunnel_server 3000) \<and> wg_count (new_tunnel_server 3000) + 1 < 2 ^ 31 \<and> - (2 ^ 31) \<le> (1::int) \<and>
   wg_add_go (wg_encode (wg_count (new_tunnel_server 3000)) 0) 1 =
     (case wg_add 1 (new_tunnel_server 3000) of
        Inl p \<Rightarrow> (wg_encode (wg_count (new_tunnel_server 3000) + 1) 0, TPanic NegativeCounter)
      | Inr ts' \<Rightarrow> (wg_encode (wg_count ts') 0, TDone))"
proof -
  have h: "0 \<le> wg_count (new_tunnel_server 3000)" "wg_count (new_tunnel_server 3000) + 1 < 2 ^ 31"
    "- (2 ^ 31) \<le> (1::int)"
    by (simp_all add: new_tunnel_server_def)
  show ?thesis using wg_add_refines [OF h] h by blast
qed

text \<open>C15: the WaitGroup counter is a signed 32-bit integer: \<open>Add(1)\<close> succeeds on any
  count below \<open>2^31 - 1\<close>, and at \<open>2^31 - 1\<close> it wraps to \<open>-2^31\<close> and panics with a
  negative counter, so the tunnel would crash on its \<open>2^31\<close>-th concurrent relay.\<close>

theorem wg_counter_overflow:
  assumes "0 \<le> c" and "c < 2 ^ 31"
  shows "snd (wg_add_go (wg_encode c 0) 1) = (if c = 2 ^ 31 - 1 then TPanic NegativeCounter else TDone)"
proof (cases "c = 2 ^ 31 - 1")
  case True
  have "wg_counter (wg_encode (c + 1) 0) = word_of_int (2 ^ 31)"
    using wg_counter_encode [of 0 "c + 1"] True by simp
  then have "sint (wg_counter (wg_encode (c + 1) 0)) = - (2 ^ 31)" by simp
  then show ?thesis using True by (simp only: wg_add_go_encode) simp
next
  case False
  then have "c + 1 < 2 ^ 31" using assms(2) by simp
  then show ?thesis using wg_add_go_no_waiters [of c 1] assms(1) False by simp
qed

theorem wg_counter_overflow_witness:
  "0 \<le> (2 ^ 31 - 1 :: int) \<and> (2 ^ 31 - 1 :: int) < 2 ^ 31 \<and>
   snd (wg_add_go (wg_encode (2 ^ 31 - 1) 0) 1) = TPanic NegativeCounter"
  using wg_counter_overflow [of "2 ^ 31 - 1"] by simp

text \<open>C13: Go's \<open>WaitGroup\<close> does not allow an \<open>Add\<close> with a positive delta to
  race with a \<open>Wait\<close> that is already blocked.  Take one relay in flight (counter 1),
  \<open>Stop\<close> blocked in \<open>Wait\<close>, the relay's deferred \<open>Done\<close>, and the \<open>Add(1)\<close> of a
  connection accepted after \<open>Stop\<close>.  Two interleavings crash the process: in one the
  \<open>Add(1)\<close> lands after the \<open>Done\<close> released the waiter, and \<open>Wait\<close> panics with
  "WaitGroup is reused before previous Wait has returned"; in the other it lands
  between the \<open>Done\<close>'s two phases, and \<open>Add\<close> panics with "WaitGroup misuse: Add
  called concurrently with Wait".\<close>

theorem wg_add_during_wait_panics:
  "(\<exists>g. wg_step\<^sup>*\<^sup>* (\<lparr>wg_state = wg_encode 1 0, wg_sema = 0\<rparr>, [TWaitLoad, TAdd (- 1), TAdd 1])
          (g, [TPanic ReusedBeforeWaitReturned, TDone, TDone])) \<and>
   (\<exists>g. wg_step\<^sup>*\<^sup>* (\<lparr>wg_state = wg_encode 1 0, wg_sema = 0\<rparr>, [TWaitLoad, TAdd (- 1), TAdd 1])
          (g, [TWaitSleep, TAddReset 1, TPanic AddConcurrentWithWait]))"
proof
  have s4: "wg_step (\<lparr>wg_state = 1, wg_sema = 0\<rparr>, [TWaitSleep, TAddReset 1, TAdd 1])
              (\<lparr>wg_state = 1, wg_sema = 0\<rparr>, [TWaitSleep, TAddStore 1, TAdd 1])"
    using wg_step.wg_add_reset [where i = 1 and s = 1 and g = "\<lparr>wg_state = 1, wg_sema = 0\<rparr>"
      and ts = "[TWaitSleep, TAddReset 1, TAdd 1]"]
    by (simp only: wg_waiters_one) simp
  have s5: "wg_step (\<lparr>wg_state = 1, wg_sema = 0\<rparr>, [TWaitSleep, TAddStore 1, TAdd 1])
              (\<lparr>wg_state = 0, wg_sema = 1\<rparr>, [TWaitSleep, TDone, TAdd 1])"
    by (rule wg_step_to [OF wg_step.wg_add_store [where i = 1]]) simp_all
  have e6: "wg_add_go 0 1 = (wg_encode 1 0, TDone)" by code_simp
  have s6: "wg_step (\<lparr>wg_state = 0, wg_sema = 1\<rparr>, [TWaitSleep, TDone, TAdd 1])
              (\<lparr>wg_state = wg_encode 1 0, wg_sema = 1\<rparr>, [TWaitSleep, TDone, TDone])"
    by (rule wg_step_add_to [where i = 2, OF _ _ _ e6]) simp_all
  have s7: "wg_step (\<lparr>wg_state = wg_encode 1 0, wg_sema = 1\<rparr>, [TWaitSleep, TDone, TDone])
              (\<lparr>wg_state = wg_encode 1 0, wg_sema = 0\<rparr>, [TWaitCheck, TDone, TDone])"
    by (rule wg_step_to [OF wg_step.wg_wait_wake [where i = 0]]) simp_all
  have n: "wg_encode 1 0 \<noteq> 0" using wg_counter_one_zero by (auto simp: wg_counter_def)
  have s8: "wg_step (\<lparr>wg_state = wg_encode 1 0, wg_sema = 0\<rparr>, [TWaitCheck, TDone, TDone])
              (\<lparr>wg_state = wg_encode 1 0, wg_sema = 0\<rparr>, [TPanic ReusedBeforeWaitReturned, TDone, TDone])"
    by (rule wg_step_to [OF wg_step.wg_wait_check [where i = 0]]) (simp_all add: n)
  show "\<exists>g. wg_step\<^sup>*\<^sup>* (\<lparr>wg_state = wg_encode 1 0, wg_sema = 0\<rparr>, [TWaitLoad, TAdd (- 1), TAdd 1])
          (g, [TPanic ReusedBeforeWaitReturned, TDone, TDone])"
    using wg_add_during_wait_prefix s4 s5 s6 s7 s8 by (meson rtranclp.rtrancl_into_rtrancl)
next
  have e: "wg_add_go 1 1 = (wg_encode 1 0 + 1, TPanic AddConcurrentWithWait)" by code_simp
  have s: "wg_step (\<lparr>wg_state = 1, wg_sema = 0\<rparr>, [TWaitSleep, TAddReset 1, TAdd 1])
             (\<lparr>wg_state = wg_encode 1 0 + 1, wg_sema = 0\<rparr>, [TWaitSleep, TAddReset 1, TPanic AddConcurrentWithWait])"
    by (rule wg_step_add_to [where i = 2, OF _ _ _ e]) simp_all
  show "\<exists>g. wg_step\<^sup>*\<^sup>* (\<lparr>wg_state = wg_encode 1 0, wg_sema = 0\<rparr>, [TWaitLoad, TAdd (- 1), TAdd 1])
          (g, [TWaitSleep, TAddReset 1, TPanic AddConcurrentWithWait])"
    using wg_add_during_wait_prefix s by (meson rtranclp.rtrancl_into_rtrancl)
qed

end
