(* ===== verification/Spec2Isabelle.thy ===== *)
theory Spec2Isabelle
  imports Relay Shutdown WaitGroup
begin

text \<open>
  \<^bold>\<open>A verification development of the TCP tunnel of \<open>src/main.go\<close>.\<close>

  The program exposes a local TCP service on an ephemeral public port.  Its parts:
  \<^item> \<open>TunnelServer\<close> (lines 15--27): local and public port, a \<open>sync.WaitGroup\<close>
    counting live relays, and \<open>stopChan\<close>, closed to request shutdown;
  \<^item> the Listener Manager: \<open>Start\<close> (lines 29--65) enumerates the interfaces for a
    host address to display, binds \<open>net.Listen("tcp", ":0")\<close>, reads the assigned port
    back with \<open>SplitHostPort\<close> and \<open>Atoi\<close>, and starts \<open>acceptConnections\<close>
    (lines 66--84), which loops over a \<open>select\<close> on \<open>stopChan\<close> with a \<open>default\<close>
    branch that blocks in \<open>Accept\<close>, counts the connection with \<open>Add(1)\<close> and starts a
    relay;
  \<^item> the Relay Worker \<open>handleConnection\<close> (lines 86--113): defers \<open>Done\<close> and the
    close of the public connection, dials the local service, defers its close, runs two
    \<open>io.Copy\<close> goroutines and returns at the first result on \<open>errChan\<close>;
  \<^item> the Shutdown Coordinator \<open>Stop\<close> (lines 115--119): closes \<open>stopChan\<close> and waits
    for the WaitGroup;
  \<^item> \<open>main\<close> (lines 121--144): parses the port argument, starts the tunnel or exits
    through \<open>log.Fatalf\<close>, waits for a signal, calls \<open>Stop\<close> and returns, which ends the
    process.

  \<^bold>\<open>Theories.\<close>
  \<^item> \<open>Prelude\<close>: the machine types (\<open>byte\<close> = \<open>8 word\<close>, Go \<open>int\<close>/\<open>uint64\<close> =
    \<open>64 word\<close>), decimal digits, the Horner value \<open>decimal_value\<close> of a numeral and the
    reference printer \<open>dec_string\<close>, the collection \<open>model_simps\<close> that evaluates the
    model on concrete inputs, and facts on the signed reading of words.
  \<^item> \<open>GoStrconv\<close>: \<open>strconv.Atoi\<close> (\<open>atoi\<close>, with its fast path \<open>atoi_digits\<close>),
    \<open>ParseInt\<close>/\<open>ParseUint\<close> (\<open>parse_int\<close>, \<open>parse_uint\<close>, \<open>parse_uint_loop\<close>)
    and \<open>internal/itoa\<close> (\<open>itoa\<close>, \<open>uitoa\<close>, \<open>uitoa_loop\<close>), translated from the Go
    sources at 64 bits with the overflow checks written on the words; they are the
    conversions \<open>main\<close> (line 125) and \<open>Start\<close> (lines 52, 57) rely on.
  \<^item> \<open>GoNet\<close>: \<open>IP.To4\<close>, \<open>IsLoopback\<close>, \<open>IP.String\<close> on all its branches (the
    IPv6 one with \<open>netip\<close>'s zero-run compression, \<open>append_to6\<close> with nine units of
    fuel), \<open>ipEmptyString\<close>, the host scan of \<open>Start\<close> (\<open>select_host_ip\<close>),
    \<open>SplitHostPort\<close>, \<open>JoinHostPort\<close> and \<open>TCPAddr.String\<close>.
  \<^item> \<open>Tunnel\<close>: the struct as the record \<open>tunnel_server\<close>; \<open>start\<close> as a function of
    what \<open>InterfaceAddrs\<close> and \<open>Listen\<close> return (\<open>start_env\<close>), every \<open>return err\<close>
    a value of \<open>start_error\<close>; \<open>wg_add\<close> and \<open>close_stop\<close> with the runtime panics
    \<open>go_panic\<close> they can raise; \<open>parse_local_port\<close> for \<open>main\<close>'s argument.
  \<^item> \<open>System\<close>: the running process as the interleaving relation \<open>step\<close> over the
    state \<open>sys\<close>: the server, the listener (\<open>LNone\<close>/\<open>LOpen\<close>/\<open>LClosed\<close>) and its
    accept backlog, the accept loop's program point \<open>accept_pc\<close>, the list of relay
    workers (program point and \<open>defer\<close> stack each), \<open>main\<close>'s program point and a
    possible panic.  Each rule is one atomic action of one goroutine, named after the
    line it executes; \<open>reach lp\<close> is the set of states a run of \<open>main\<close> with local
    port \<open>lp\<close> reaches.  Blocking calls are guards (\<open>Wait\<close> needs the counter at 0,
    \<open>Accept\<close> a connection in the backlog); calls whose outcome the environment
    decides (\<open>Accept\<close> errors, \<open>Dial\<close>, the signal, the end of a copy) are
    nondeterministic choices.  A relay's copy phase is one step here.
  \<^item> \<open>IoCopy\<close>: \<open>io.Copy\<close>, the loop of \<open>io.copyBuffer\<close>, as \<open>copy_buffer\<close> over the
    results of the source's \<open>Read\<close> and the destination's \<open>Write\<close> calls.
  \<^item> \<open>Relay\<close>: one \<open>handleConnection\<close> in detail, as the relation \<open>relay_step\<close>: the
    handler, its two copy goroutines and the buffered \<open>errChan\<close>; it refines the worker
    steps of \<open>System\<close>.
  \<^item> \<open>Shutdown\<close>: the measure \<open>drain_measure\<close> and the schedule that lets \<open>Stop\<close>
    return.
  \<^item> \<open>WaitGroup\<close>: \<open>sync.WaitGroup\<close> as the Go runtime implements it (the packed
    64-bit \<open>state\<close> with the \<open>int32\<close> counter above the waiter count, and
    \<open>sema\<close>): \<open>wg_add_go\<close> is \<open>Add\<close>'s atomic add and panic checks, \<open>wg_step\<close>
    interleaves goroutines in \<open>Add\<close> and \<open>Wait\<close> one atomic operation at a time.
    \<open>System\<close> uses the counter \<open>wg_add\<close> of \<open>Tunnel\<close> with \<open>Wait\<close> as a guard;
    this theory relates the two and shows where that abstraction stops.  \<open>Add\<close>'s
    \<open>Store(0)\<close> and its \<open>Semrelease\<close> calls are one step, which removes
    interleavings but adds none, so the panicking runs found here are runs of the
    runtime.

  \<^bold>\<open>What is proved.\<close>
  \<^item> The invariant \<open>sys_inv\<close> holds in every reachable state (\<open>reach_inv\<close>, by rule
    induction over \<open>step\<close>): the WaitGroup counter equals the live relays plus a pending
    \<open>Add\<close> (C1), so it never goes negative while \<open>Add\<close>, \<open>Done\<close> and \<open>Wait\<close> are atomic on it.  The defer stacks run \<open>Done\<close> after both closes (C2), so when \<open>Stop\<close>
    returns every relay has closed both connections (C3); and \<open>Stop\<close> can always
    return (C4, theory \<open>Shutdown\<close>, by a measure on the work left).
  \<^item> Relays: \<open>errChan\<close>'s two slots mean no copy goroutine ever blocks on its send
    (C5); every relay can always be run to completion, with both copy goroutines exited
    (C6, by a measure that decreases along a schedule); each relay step is a stutter or a
    worker step of \<open>System.step\<close> (lemma \<open>relay_refines_worker\<close>).  Each direction's \<open>io.Copy\<close> delivers exactly
    the bytes read when writes complete (C7), and in any case a prefix of them with the
    right count (C8); read errors (C17) end it with
    their errors; it returns once the source reports an error or \<open>EOF\<close> (C18).
  \<^item> Shutdown: after \<open>stopChan\<close> is closed at most one more relay starts (C9), and
    that one does start: the listener is still open and a connection made after
    \<open>Stop\<close> is relayed (C10), against spec sections 2 and 4.1; a second \<open>Stop\<close>
    panics (C11), against the idempotence of spec 4.3; a closed listener stays closed
    and empty (C12); \<open>Done\<close> runs while the relay's second copy goroutine still runs
    (C16), against spec section 3.
  \<^item> The runtime's WaitGroup: while no goroutine waits, its packed \<open>Add\<close> refines the counter of
    \<open>System\<close> (C14), and its \<open>int32\<close> counter wraps and panics at \<open>2^31 - 1\<close>
    (C15).  Its steps are not atomic, though: the \<open>Add(1)\<close> of the connection accepted
    after \<open>Stop\<close>, racing with \<open>Stop\<close>'s blocked \<open>Wait\<close> and the last relay's \<open>Done\<close>, crashes the
    process with either of the runtime's misuse panics (C13), against spec 4.3.
  \<^item> \<open>Start\<close>'s outcome on every environment (C19), the port argument accepted without
    range check (C20) and the default port (C21).
  \<^item> The conversions: \<open>Atoi\<close>'s fast path equals \<open>ParseInt\<close> (C22); \<open>Itoa\<close> then
    \<open>Atoi\<close> is the identity on all \<open>2^64\<close> values (C23), and \<open>Itoa\<close> prints a
    canonical numeral (C24); \<open>Uitoa\<close> refines
    \<open>dec_string\<close> (C25); \<open>Atoi\<close> on unsigned numerals, with the range error (C26);
    the host scan against its specification (C27); \<open>IP.String\<close> never prints a bracket
    or \<open>'%'\<close> (C28), which makes \<open>Start\<close>'s port recovery work for every listener
    address.

  \<^bold>\<open>Bounds.\<close>  Integers are kept at their Go width (64 bits) wherever the code
  computes with them; the WaitGroup counter of \<open>System\<close> is an unbounded \<open>int\<close> since Go's
  32-bit counter overflow needs \<open>2^31\<close> live relays; theory \<open>WaitGroup\<close> keeps it at
  32 bits inside the 64-bit state and proves where it wraps.  The model has no fuel: every loop of the
  source is either structural recursion on a finite input (the parsers, \<open>copy_buffer\<close>
  over the \<open>Read\<close> results, which returns \<open>None\<close> while the copy is still blocked) or a
  step of a relation (\<open>acceptConnections\<close>, the relay), so that non-termination is an
  infinite run.  \<open>io.Copy\<close>'s chunks are at most the 32 KiB of its buffer, which keeps
  its counts exact in a 64-bit \<open>int\<close>.  The one loop with fuel is \<open>appendTo6\<close>'s
  printing loop, whose counter jumps over the compressed zero run: nine units (eight
  groups and the exit test) always suffice (lemma \<open>ip6_string_run\<close>).

  \<^bold>\<open>Not modelled.\<close>  Logging; \<open>signal.Notify\<close> beyond the nondeterministic arrival
  of the signal; the TCP stack, whose \<open>Read\<close> and \<open>Write\<close> results are the inputs of
  \<open>io_copy\<close> (a \<open>TCPConn.Write\<close> reports fewer bytes than asked only with an error,
  so \<open>copyBuffer\<close>'s short-write and invalid-write branches, modelled as written,
  are not reached through it), and the \<open>splice\<close>/\<open>sendfile\<close> fast paths of \<open>io.Copy\<close>, which move
  the same bytes; the operating system's choice of port, listener address and
  interfaces, which are inputs of \<open>start\<close>; the zone (an interface name) of the
  listener's address, which \<open>start_outcome\<close> assumes free of brackets.
\<close>

end
